theory Spec2Isabelle
  imports Main
begin

section \<open>Data model of \<open>arc.h\<close>\<close>

text \<open>
  The header defines two handle classes, \<open>Arc<T>\<close> and \<open>WeakArc<T>\<close>, each holding a raw
  pointer \<open>control_block\<close> to a heap-allocated control block. The model is a sequential
  one: a single actor runs the member functions one after the other against an explicit
  heap. Everything a member function does to shared memory is a state update, and every
  atomic operation, fence, lock operation and deletion it performs is appended, in program
  order and with its \<open>std::memory_order\<close> argument, to a trace.

  Addresses are natural numbers. A \<open>T*\<close> is an optional address, \<open>None\<close> being
  \<open>nullptr\<close>. The payload objects themselves are allocated by the caller
  (\<open>new MyData(42)\<close>) and are not part of the heap below: the model only records which of
  them have been handed to \<open>delete\<close>, in order and with repetitions. Allocation by \<open>new\<close>
  always succeeds, and the counters, \<open>std::atomic<int>\<close> in the source, are unbounded
  integers: no claim depends on a count beyond \<open>INT_MAX\<close>.
\<close>

type_synonym addr = nat
type_synonym ptr = "addr option"

datatype memory_order = Relaxed | Release | Acquire

text \<open>
  \<open>std::shared_mutex\<close>: free, held exclusively, or held in shared mode; \<open>Readers n\<close>
  stands for \<open>n + 1\<close> shared owners.
\<close>

datatype rwlock = Unlocked | Writer | Readers nat

datatype event =
    FetchAdd addr memory_order
  | FetchSub addr memory_order
  | Load addr memory_order
  | Fence memory_order
  | Lock addr
  | Unlock addr
  | LockShared addr
  | UnlockShared addr
  | Delete addr
  | FreeBlock addr
  | WeakFetchAdd addr memory_order
  | WeakFetchSub addr memory_order
  | WeakFreeBlock addr

text \<open>
  What a call can do instead of returning: \<open>Blocked\<close> is a lock acquisition that cannot
  succeed in the current state (the calling thread would wait forever, there being nobody
  else to release the lock), \<open>NullDeref\<close> a dereference of a null \<open>control_block\<close>,
  \<open>Dangling\<close> a use of a handle or control block that does not exist (any more).
\<close>

datatype error = Blocked | NullDeref | Dangling

text \<open>
  \<open>std::shared_ptr<T>\<close> and \<open>std::weak_ptr<T>\<close> are both a pair of a pointer to the
  library's own reference-count block and the stored pointer that \<open>get()\<close> returns. The
  library's block carries the use count and the pointer its deleter will be applied to; its
  weak count only governs the lifetime of the library block itself and is left out (a
  library block is never removed from the heap: once its use count is 0 it is expired).
\<close>

record std_ptr =
  ctrl :: "addr option"
  stored :: ptr

record sp_block =
  use_count :: nat
  managed :: ptr

record ArcControlBlock =
  ref_count :: int
  mutex :: rwlock
  data :: std_ptr

record WeakArcControlBlock =
  weak_ref_count :: int
  weak_data :: std_ptr

record state =
  arc_blocks :: "addr \<rightharpoonup> ArcControlBlock"
  weak_blocks :: "addr \<rightharpoonup> WeakArcControlBlock"
  sp_blocks :: "addr \<rightharpoonup> sp_block"
  arc_objs :: "addr \<rightharpoonup> addr option"
  weak_objs :: "addr \<rightharpoonup> addr option"
  deleted :: "addr list"
  trace :: "event list"
  next_addr :: addr

definition init_state :: state where
  "init_state = \<lparr>arc_blocks = Map.empty, weak_blocks = Map.empty, sp_blocks = Map.empty,
     arc_objs = Map.empty, weak_objs = Map.empty, deleted = [], trace = [], next_addr = 0\<rparr>"

definition empty_ptr :: std_ptr where
  "empty_ptr = \<lparr>ctrl = None, stored = None\<rparr>"

section \<open>Primitives: atomics, the lock, the library pointers\<close>

definition emit :: "event \<Rightarrow> state \<Rightarrow> state" where
  "emit e s = s\<lparr>trace := trace s @ [e]\<rparr>"

text \<open>\<open>control_block->ref_count.fetch_add(1, mo)\<close>; the value returned is the old one.\<close>

definition fetch_add :: "addr \<Rightarrow> memory_order \<Rightarrow> state \<Rightarrow> error + (int \<times> state)" where
  "fetch_add b mo s =
     (case arc_blocks s b of
        None \<Rightarrow> Inl Dangling
      | Some cb \<Rightarrow>
          Inr (ref_count cb,
               emit (FetchAdd b mo)
                 (s\<lparr>arc_blocks := (arc_blocks s)(b \<mapsto> cb\<lparr>ref_count := ref_count cb + 1\<rparr>)\<rparr>)))"

definition fetch_sub :: "addr \<Rightarrow> memory_order \<Rightarrow> state \<Rightarrow> error + (int \<times> state)" where
  "fetch_sub b mo s =
     (case arc_blocks s b of
        None \<Rightarrow> Inl Dangling
      | Some cb \<Rightarrow>
          Inr (ref_count cb,
               emit (FetchSub b mo)
                 (s\<lparr>arc_blocks := (arc_blocks s)(b \<mapsto> cb\<lparr>ref_count := ref_count cb - 1\<rparr>)\<rparr>)))"

definition load :: "addr \<Rightarrow> memory_order \<Rightarrow> state \<Rightarrow> error + (int \<times> state)" where
  "load b mo s =
     (case arc_blocks s b of
        None \<Rightarrow> Inl Dangling
      | Some cb \<Rightarrow> Inr (ref_count cb, emit (Load b mo) s))"

text \<open>
  \<open>std::shared_mutex::lock\<close> and \<open>lock_shared\<close>. An acquisition that cannot be granted
  does not return.
\<close>

definition lock :: "addr \<Rightarrow> state \<Rightarrow> error + state" where
  "lock b s =
     (case arc_blocks s b of
        None \<Rightarrow> Inl Dangling
      | Some cb \<Rightarrow>
          if mutex cb = Unlocked
          then Inr (emit (Lock b) (s\<lparr>arc_blocks := (arc_blocks s)(b \<mapsto> cb\<lparr>mutex := Writer\<rparr>)\<rparr>))
          else Inl Blocked)"

definition lock_shared :: "addr \<Rightarrow> state \<Rightarrow> error + state" where
  "lock_shared b s =
     (case arc_blocks s b of
        None \<Rightarrow> Inl Dangling
      | Some cb \<Rightarrow>
          (case mutex cb of
             Unlocked \<Rightarrow>
               Inr (emit (LockShared b)
                      (s\<lparr>arc_blocks := (arc_blocks s)(b \<mapsto> cb\<lparr>mutex := Readers 0\<rparr>)\<rparr>))
           | Readers n \<Rightarrow>
               Inr (emit (LockShared b)
                      (s\<lparr>arc_blocks := (arc_blocks s)(b \<mapsto> cb\<lparr>mutex := Readers (Suc n)\<rparr>)\<rparr>))
           | Writer \<Rightarrow> Inl Blocked))"

text \<open>
  The unlock run by the destructor of a \<open>std::lock_guard\<close> or \<open>std::shared_lock\<close>. The
  guard holds a reference to the mutex it was built on. When the control block holding that
  mutex has been deleted in the meantime the unlock touches freed memory; the model records
  the event and leaves the heap as it is.
\<close>

definition unlock :: "addr \<Rightarrow> state \<Rightarrow> state" where
  "unlock b s =
     emit (Unlock b)
       (case arc_blocks s b of
          None \<Rightarrow> s
        | Some cb \<Rightarrow> s\<lparr>arc_blocks := (arc_blocks s)(b \<mapsto> cb\<lparr>mutex := Unlocked\<rparr>)\<rparr>)"

definition unlock_shared :: "addr \<Rightarrow> state \<Rightarrow> state" where
  "unlock_shared b s =
     emit (UnlockShared b)
       (case arc_blocks s b of
          None \<Rightarrow> s
        | Some cb \<Rightarrow>
            s\<lparr>arc_blocks := (arc_blocks s)(b \<mapsto>
                 cb\<lparr>mutex := (case mutex cb of Readers (Suc n) \<Rightarrow> Readers n | _ \<Rightarrow> Unlocked)\<rparr>)\<rparr>)"

text \<open>
  \<open>std::lock(m1, m2)\<close> returns once both mutexes are held exclusively, whatever the order
  it tried them in; when one of them cannot be had it does not return. With \<open>m1\<close> and \<open>m2\<close>
  the same mutex the second acquisition can never be granted.
\<close>

definition lock_both :: "addr \<Rightarrow> addr \<Rightarrow> state \<Rightarrow> error + state" where
  "lock_both b1 b2 s = (case lock b1 s of Inl e \<Rightarrow> Inl e | Inr s1 \<Rightarrow> lock b2 s1)"

text \<open>The deleter given to the \<open>shared_ptr\<close>: \<open>[](T *p) { delete p; }\<close>.\<close>

definition deleter :: "ptr \<Rightarrow> state \<Rightarrow> state" where
  "deleter p s =
     (case p of
        None \<Rightarrow> s
      | Some a \<Rightarrow> emit (Delete a) (s\<lparr>deleted := deleted s @ [a]\<rparr>))"

text \<open>
  Giving up one \<open>shared_ptr\<close> (its destructor, or \<open>reset()\<close>): the use count drops, and the
  owner that takes it from 1 to 0 runs the deleter on the managed pointer.
\<close>

definition sp_release :: "std_ptr \<Rightarrow> state \<Rightarrow> state" where
  "sp_release sp s =
     (case ctrl sp of
        None \<Rightarrow> s
      | Some c \<Rightarrow>
          (case sp_blocks s c of
             None \<Rightarrow> s
           | Some blk \<Rightarrow>
               (let s1 = s\<lparr>sp_blocks := (sp_blocks s)(c \<mapsto> blk\<lparr>use_count := use_count blk - 1\<rparr>)\<rparr>
                in if use_count blk = 1 then deleter (managed blk) s1 else s1)))"

text \<open>\<open>std::weak_ptr::lock()\<close>: a new owner if the use count is not 0, else the empty pointer.\<close>

definition weak_lock :: "std_ptr \<Rightarrow> state \<Rightarrow> std_ptr \<times> state" where
  "weak_lock wp s =
     (case ctrl wp of
        None \<Rightarrow> (empty_ptr, s)
      | Some c \<Rightarrow>
          (case sp_blocks s c of
             None \<Rightarrow> (empty_ptr, s)
           | Some blk \<Rightarrow>
               if use_count blk = 0 then (empty_ptr, s)
               else (\<lparr>ctrl = Some c, stored = stored wp\<rparr>,
                     s\<lparr>sp_blocks := (sp_blocks s)(c \<mapsto> blk\<lparr>use_count := Suc (use_count blk)\<rparr>)\<rparr>)))"

section \<open>\<open>Arc\<close>\<close>

text \<open>
  \<open>new ArcControlBlock(ptr)\<close> with \<open>ref_count(1), data(ptr, deleter)\<close>: the \<open>shared_ptr\<close>
  constructor allocates a library block of its own for \<open>ptr\<close>, also when \<open>ptr\<close> is null.
\<close>

definition ArcControlBlock_new :: "ptr \<Rightarrow> state \<Rightarrow> addr \<times> state" where
  "ArcControlBlock_new p s =
     (let c = next_addr s; b = Suc c in
      (b, s\<lparr>sp_blocks := (sp_blocks s)(c \<mapsto> \<lparr>use_count = 1, managed = p\<rparr>),
            arc_blocks := (arc_blocks s)(b \<mapsto>
               \<lparr>ref_count = 1, mutex = Unlocked, data = \<lparr>ctrl = Some c, stored = p\<rparr>\<rparr>),
            next_addr := Suc b\<rparr>))"

text \<open>\<open>explicit Arc(T *ptr)\<close>; the result is the address of the new \<open>Arc\<close> object.\<close>

definition Arc_ctor :: "ptr \<Rightarrow> state \<Rightarrow> addr \<times> state" where
  "Arc_ctor p s =
     (case ArcControlBlock_new p s of
        (b, s1) \<Rightarrow>
          (next_addr s1,
           s1\<lparr>arc_objs := (arc_objs s1)(next_addr s1 \<mapsto> Some b), next_addr := Suc (next_addr s1)\<rparr>))"

text \<open>\<open>Arc(const Arc &other)\<close>.\<close>

definition Arc_copy :: "addr \<Rightarrow> state \<Rightarrow> error + (addr \<times> state)" where
  "Arc_copy other s =
     (case arc_objs s other of
        None \<Rightarrow> Inl Dangling
      | Some cbp \<Rightarrow>
          (let this = next_addr s;
               s1 = s\<lparr>arc_objs := (arc_objs s)(this \<mapsto> cbp), next_addr := Suc this\<rparr>
           in case cbp of
                None \<Rightarrow> Inl NullDeref
              | Some b \<Rightarrow>
                  (case fetch_add b Relaxed s1 of
                     Inl e \<Rightarrow> Inl e
                   | Inr (old, s2) \<Rightarrow> Inr (this, s2))))"

text \<open>\<open>control_block->data.reset()\<close> and \<open>delete control_block\<close>.\<close>

definition data_reset :: "addr \<Rightarrow> state \<Rightarrow> state" where
  "data_reset b s =
     (case arc_blocks s b of
        None \<Rightarrow> s
      | Some cb \<Rightarrow>
          (let s1 = sp_release (data cb) s
           in s1\<lparr>arc_blocks := (arc_blocks s1)(b \<mapsto> cb\<lparr>data := empty_ptr\<rparr>)\<rparr>))"

definition delete_block :: "addr \<Rightarrow> state \<Rightarrow> state" where
  "delete_block b s =
     (case arc_blocks s b of
        None \<Rightarrow> s
      | Some cb \<Rightarrow>
          (let s1 = sp_release (data cb) s
           in emit (FreeBlock b) (s1\<lparr>arc_blocks := (arc_blocks s1)(b := None)\<rparr>)))"

text \<open>
  The body of the \<open>if\<close> in \<open>Arc::release\<close>, entered by the caller whose \<open>fetch_sub\<close>
  returned 1: fence, exclusive lock, re-check of the count, destruction, and the guard's
  unlock at the end of the block.
\<close>

definition release_last :: "addr \<Rightarrow> state \<Rightarrow> error + state" where
  "release_last b s =
     (case lock b (emit (Fence Acquire) s) of
        Inl e \<Rightarrow> Inl e
      | Inr s1 \<Rightarrow>
          (case load b Relaxed s1 of
             Inl e \<Rightarrow> Inl e
           | Inr (n, s2) \<Rightarrow>
               Inr (unlock b (if n = 0 then delete_block b (data_reset b s2) else s2))))"

text \<open>\<open>void Arc::release()\<close>.\<close>

definition Arc_release :: "addr \<Rightarrow> state \<Rightarrow> error + state" where
  "Arc_release this s =
     (case arc_objs s this of
        None \<Rightarrow> Inl Dangling
      | Some cbp \<Rightarrow>
          (case cbp of
             None \<Rightarrow> Inr s
           | Some b \<Rightarrow>
               (case fetch_sub b Release s of
                  Inl e \<Rightarrow> Inl e
                | Inr (old, s1) \<Rightarrow> if old = 1 then release_last b s1 else Inr s1)))"

text \<open>\<open>~Arc()\<close>: \<open>release()\<close>, after which the \<open>Arc\<close> object is gone.\<close>

definition Arc_dtor :: "addr \<Rightarrow> state \<Rightarrow> error + state" where
  "Arc_dtor this s =
     (case Arc_release this s of
        Inl e \<Rightarrow> Inl e
      | Inr s1 \<Rightarrow> Inr (s1\<lparr>arc_objs := (arc_objs s1)(this := None)\<rparr>))"

text \<open>
  \<open>operator=(const Arc &other)\<close>, first its \<open>if\<close> statement. The two guards adopt the
  mutexes locked by \<open>std::lock\<close> and are destroyed in reverse order at the end of the block;
  \<open>self_lock\<close> refers to the mutex of the block that \<open>this\<close> pointed to on entry.
\<close>

definition Arc_assign_if :: "addr \<Rightarrow> addr \<Rightarrow> state \<Rightarrow> error + state" where
  "Arc_assign_if this other s =
     (if this \<noteq> other then
        (case arc_objs s this of
           None \<Rightarrow> Inl Dangling
         | Some cbp1 \<Rightarrow>
             (case arc_objs s other of
                None \<Rightarrow> Inl Dangling
              | Some cbp2 \<Rightarrow>
                  (case cbp1 of
                     None \<Rightarrow> Inl NullDeref
                   | Some b1 \<Rightarrow>
                       (case cbp2 of
                          None \<Rightarrow> Inl NullDeref
                        | Some b2 \<Rightarrow>
                            (case lock_both b1 b2 s of
                               Inl e \<Rightarrow> Inl e
                             | Inr s1 \<Rightarrow>
                                 (case Arc_release this s1 of
                                    Inl e \<Rightarrow> Inl e
                                  | Inr s2 \<Rightarrow>
                                      (case fetch_add b2 Relaxed
                                              (s2\<lparr>arc_objs := (arc_objs s2)(this \<mapsto> Some b2)\<rparr>) of
                                         Inl e \<Rightarrow> Inl e
                                       | Inr (old, s3) \<Rightarrow> Inr (unlock b1 (unlock b2 s3)))))))))
      else Inr s)"

text \<open>
  The operator is declared \<open>auto operator=(const Arc &other)\<close> and ends with
  \<open>return *this;\<close>: the return type is deduced as \<open>Arc\<close>, not \<open>Arc &\<close>, so after the
  \<open>if\<close> statement (and after its guards have been destroyed) the result is built by the
  copy constructor from \<open>*this\<close>. The value returned is the address of that temporary.
\<close>

definition Arc_operator_assign :: "addr \<Rightarrow> addr \<Rightarrow> state \<Rightarrow> error + (addr \<times> state)" where
  "Arc_operator_assign this other s =
     (case Arc_assign_if this other s of
        Inl e \<Rightarrow> Inl e
      | Inr s1 \<Rightarrow> Arc_copy this s1)"

text \<open>
  The assignment \<open>a = b;\<close> as a statement: the call of the operator, then, at the end of
  the full expression, the destructor of the temporary it returned.
\<close>

definition Arc_assign :: "addr \<Rightarrow> addr \<Rightarrow> state \<Rightarrow> error + state" where
  "Arc_assign this other s =
     (case Arc_operator_assign this other s of
        Inl e \<Rightarrow> Inl e
      | Inr (tmp, s1) \<Rightarrow> Arc_dtor tmp s1)"

text \<open>\<open>get()\<close>: \<open>control_block->data.get()\<close>.\<close>

definition Arc_get :: "addr \<Rightarrow> state \<Rightarrow> error + ptr" where
  "Arc_get this s =
     (case arc_objs s this of
        None \<Rightarrow> Inl Dangling
      | Some cbp \<Rightarrow>
          (case cbp of
             None \<Rightarrow> Inl NullDeref
           | Some b \<Rightarrow>
               (case arc_blocks s b of
                  None \<Rightarrow> Inl Dangling
                | Some cb \<Rightarrow> Inr (stored (data cb)))))"

text \<open>\<open>mutex()\<close>: the address of the block's mutex, which the model identifies with the block.\<close>

definition Arc_mutex :: "addr \<Rightarrow> state \<Rightarrow> error + addr" where
  "Arc_mutex this s =
     (case arc_objs s this of
        None \<Rightarrow> Inl Dangling
      | Some cbp \<Rightarrow> (case cbp of None \<Rightarrow> Inl NullDeref | Some b \<Rightarrow> Inr b))"

text \<open>\<open>clone()\<close>: a \<open>shared_lock\<close> on the block's mutex around \<open>return Arc(*this)\<close>.\<close>

definition Arc_clone :: "addr \<Rightarrow> state \<Rightarrow> error + (addr \<times> state)" where
  "Arc_clone this s =
     (case Arc_mutex this s of
        Inl e \<Rightarrow> Inl e
      | Inr b \<Rightarrow>
          (case lock_shared b s of
             Inl e \<Rightarrow> Inl e
           | Inr s1 \<Rightarrow>
               (case Arc_copy this s1 of
                  Inl e \<Rightarrow> Inl e
                | Inr (h, s2) \<Rightarrow> Inr (h, unlock_shared b s2))))"

text \<open>
  \<open>get_mut(Arc<U> &arc)\<close>: a \<open>lock_guard\<close> on \<open>*arc.mutex()\<close>, then \<open>return arc.get()\<close>; the
  guard is a local of \<open>get_mut\<close> and is destroyed when the function returns.
\<close>

definition get_mut :: "addr \<Rightarrow> state \<Rightarrow> error + (ptr \<times> state)" where
  "get_mut arc s =
     (case Arc_mutex arc s of
        Inl e \<Rightarrow> Inl e
      | Inr b \<Rightarrow>
          (case lock b s of
             Inl e \<Rightarrow> Inl e
           | Inr s1 \<Rightarrow>
               (case Arc_get arc s1 of
                  Inl e \<Rightarrow> Inl e
                | Inr p \<Rightarrow> Inr (p, unlock b s1))))"

section \<open>\<open>WeakArc\<close>\<close>

text \<open>
  \<open>explicit WeakArc(Arc<T> &arc)\<close> with \<open>new WeakArcControlBlock(arc)\<close>:
  \<open>ref_count(1), data(arc.control_block->data)\<close>, a \<open>weak_ptr\<close> built from the
  \<open>shared_ptr\<close> of the \<open>Arc\<close>'s block.
\<close>

definition WeakArc_ctor :: "addr \<Rightarrow> state \<Rightarrow> error + (addr \<times> state)" where
  "WeakArc_ctor arc s =
     (case arc_objs s arc of
        None \<Rightarrow> Inl Dangling
      | Some cbp \<Rightarrow>
          (case cbp of
             None \<Rightarrow> Inl NullDeref
           | Some b \<Rightarrow>
               (case arc_blocks s b of
                  None \<Rightarrow> Inl Dangling
                | Some cb \<Rightarrow>
                    (let wb = next_addr s; this = Suc wb in
                     Inr (this,
                          s\<lparr>weak_blocks := (weak_blocks s)(wb \<mapsto>
                               \<lparr>weak_ref_count = 1, weak_data = data cb\<rparr>),
                            weak_objs := (weak_objs s)(this \<mapsto> Some wb),
                            next_addr := Suc this\<rparr>)))))"

definition weak_fetch_add :: "addr \<Rightarrow> memory_order \<Rightarrow> state \<Rightarrow> error + (int \<times> state)" where
  "weak_fetch_add wb mo s =
     (case weak_blocks s wb of
        None \<Rightarrow> Inl Dangling
      | Some cb \<Rightarrow>
          Inr (weak_ref_count cb,
               emit (WeakFetchAdd wb mo)
                 (s\<lparr>weak_blocks := (weak_blocks s)(wb \<mapsto>
                      cb\<lparr>weak_ref_count := weak_ref_count cb + 1\<rparr>)\<rparr>)))"

definition weak_fetch_sub :: "addr \<Rightarrow> memory_order \<Rightarrow> state \<Rightarrow> error + (int \<times> state)" where
  "weak_fetch_sub wb mo s =
     (case weak_blocks s wb of
        None \<Rightarrow> Inl Dangling
      | Some cb \<Rightarrow>
          Inr (weak_ref_count cb,
               emit (WeakFetchSub wb mo)
                 (s\<lparr>weak_blocks := (weak_blocks s)(wb \<mapsto>
                      cb\<lparr>weak_ref_count := weak_ref_count cb - 1\<rparr>)\<rparr>)))"

text \<open>\<open>WeakArc(const WeakArc &other)\<close>.\<close>

definition WeakArc_copy :: "addr \<Rightarrow> state \<Rightarrow> error + (addr \<times> state)" where
  "WeakArc_copy other s =
     (case weak_objs s other of
        None \<Rightarrow> Inl Dangling
      | Some cbp \<Rightarrow>
          (let this = next_addr s;
               s1 = s\<lparr>weak_objs := (weak_objs s)(this \<mapsto> cbp), next_addr := Suc this\<rparr>
           in case cbp of
                None \<Rightarrow> Inl NullDeref
              | Some wb \<Rightarrow>
                  (case weak_fetch_add wb Relaxed s1 of
                     Inl e \<Rightarrow> Inl e
                   | Inr (old, s2) \<Rightarrow> Inr (this, s2))))"

text \<open>
  \<open>operator=(const WeakArc &other)\<close>, first its \<open>if\<close> statement: the body is the two
  statements \<open>control_block = other.control_block\<close> and \<open>fetch_add\<close>; there is no call of
  \<open>release()\<close>.
\<close>

definition WeakArc_assign_if :: "addr \<Rightarrow> addr \<Rightarrow> state \<Rightarrow> error + state" where
  "WeakArc_assign_if this other s =
     (if this \<noteq> other then
        (case weak_objs s this of
           None \<Rightarrow> Inl Dangling
         | Some cbp1 \<Rightarrow>
             (case weak_objs s other of
                None \<Rightarrow> Inl Dangling
              | Some cbp2 \<Rightarrow>
                  (case cbp2 of
                     None \<Rightarrow> Inl NullDeref
                   | Some wb2 \<Rightarrow>
                       (case weak_fetch_add wb2 Relaxed
                               (s\<lparr>weak_objs := (weak_objs s)(this \<mapsto> cbp2)\<rparr>) of
                          Inl e \<Rightarrow> Inl e
                        | Inr (old, s1) \<Rightarrow> Inr s1))))
      else Inr s)"

text \<open>\<open>void WeakArc::release()\<close> and \<open>~WeakArc()\<close>.\<close>

definition WeakArc_release :: "addr \<Rightarrow> state \<Rightarrow> error + state" where
  "WeakArc_release this s =
     (case weak_objs s this of
        None \<Rightarrow> Inl Dangling
      | Some cbp \<Rightarrow>
          (case cbp of
             None \<Rightarrow> Inr s
           | Some wb \<Rightarrow>
               (case weak_fetch_sub wb Release s of
                  Inl e \<Rightarrow> Inl e
                | Inr (old, s1) \<Rightarrow>
                    if old = 1
                    then (let s2 = emit (Fence Acquire) s1
                          in Inr (emit (WeakFreeBlock wb)
                                    (s2\<lparr>weak_blocks := (weak_blocks s2)(wb := None)\<rparr>)))
                    else Inr s1)))"

definition WeakArc_dtor :: "addr \<Rightarrow> state \<Rightarrow> error + state" where
  "WeakArc_dtor this s =
     (case WeakArc_release this s of
        Inl e \<Rightarrow> Inl e
      | Inr s1 \<Rightarrow> Inr (s1\<lparr>weak_objs := (weak_objs s1)(this := None)\<rparr>))"

text \<open>
  \<open>WeakArc\<close>'s operator is \<open>auto operator=(const WeakArc &other)\<close> with
  \<open>return *this;\<close> too: it returns a temporary built by the copy constructor, and the
  assignment \<open>w = v;\<close> as a statement ends with the destructor of that temporary.
\<close>

definition WeakArc_operator_assign ::
  "addr \<Rightarrow> addr \<Rightarrow> state \<Rightarrow> error + (addr \<times> state)" where
  "WeakArc_operator_assign this other s =
     (case WeakArc_assign_if this other s of
        Inl e \<Rightarrow> Inl e
      | Inr s1 \<Rightarrow> WeakArc_copy this s1)"

definition WeakArc_assign :: "addr \<Rightarrow> addr \<Rightarrow> state \<Rightarrow> error + state" where
  "WeakArc_assign this other s =
     (case WeakArc_operator_assign this other s of
        Inl e \<Rightarrow> Inl e
      | Inr (tmp, s1) \<Rightarrow> WeakArc_dtor tmp s1)"

text \<open>
  \<open>upgrade()\<close>: \<open>data.lock()\<close> into a local \<open>shared_ptr\<close>; if that is non-null (its stored
  pointer is), \<open>Arc<T>(shared_ptr.get())\<close>, else \<open>Arc<T>(nullptr)\<close>; the local is destroyed
  after the result has been built.
\<close>

definition WeakArc_upgrade :: "addr \<Rightarrow> state \<Rightarrow> error + (addr \<times> state)" where
  "WeakArc_upgrade this s =
     (case weak_objs s this of
        None \<Rightarrow> Inl Dangling
      | Some cbp \<Rightarrow>
          (case cbp of
             None \<Rightarrow> Inl NullDeref
           | Some wb \<Rightarrow>
               (case weak_blocks s wb of
                  None \<Rightarrow> Inl Dangling
                | Some wcb \<Rightarrow>
                    (case weak_lock (weak_data wcb) s of
                       (sp, s1) \<Rightarrow>
                         (case (if stored sp \<noteq> None then Arc_ctor (stored sp) s1
                                else Arc_ctor None s1) of
                            (h, s2) \<Rightarrow> Inr (h, sp_release sp s2))))))"

section \<open>Client programs\<close>

text \<open>
  What a caller can observe of a control block: the strong count, the weak count, the
  state of the lock.
\<close>

definition strong_count :: "addr \<Rightarrow> state \<Rightarrow> int option" where
  "strong_count b s = map_option ref_count (arc_blocks s b)"

definition weak_count :: "addr \<Rightarrow> state \<Rightarrow> int option" where
  "weak_count wb s = map_option weak_ref_count (weak_blocks s wb)"

definition lock_state :: "addr \<Rightarrow> state \<Rightarrow> rwlock option" where
  "lock_state b s = map_option mutex (arc_blocks s b)"

text \<open>The \<open>Arc\<close> objects, respectively \<open>WeakArc\<close> objects, that point to a given block.\<close>

definition holders :: "state \<Rightarrow> addr \<Rightarrow> addr set" where
  "holders s b = {h. arc_objs s h = Some (Some b)}"

definition weak_holders :: "state \<Rightarrow> addr \<Rightarrow> addr set" where
  "weak_holders s wb = {w. weak_objs s w = Some (Some wb)}"


text \<open>
  A client is a sequence of statements on handles, as in \<open>main.cpp\<close>; a call that does
  not return ends the run. The handles and pointers returned by the calls are dropped here
  (the address of a new handle is the allocator's next address); the temporary returned by
  an assignment is destroyed with the statement.
\<close>

datatype op =
    Construct ptr
  | Copy addr
  | Assign addr addr
  | Destroy addr
  | Clone addr
  | GetMut addr
  | WeakConstruct addr
  | WeakCopy addr
  | WeakAssign addr addr
  | WeakDestroy addr
  | Upgrade addr

fun exec :: "op \<Rightarrow> state \<Rightarrow> error + state" where
  "exec (Construct p) s = Inr (snd (Arc_ctor p s))"
| "exec (Copy h) s = map_sum id snd (Arc_copy h s)"
| "exec (Assign h h') s = Arc_assign h h' s"
| "exec (Destroy h) s = Arc_dtor h s"
| "exec (Clone h) s = map_sum id snd (Arc_clone h s)"
| "exec (GetMut h) s = map_sum id snd (get_mut h s)"
| "exec (WeakConstruct h) s = map_sum id snd (WeakArc_ctor h s)"
| "exec (WeakCopy w) s = map_sum id snd (WeakArc_copy w s)"
| "exec (WeakAssign w w') s = WeakArc_assign w w' s"
| "exec (WeakDestroy w) s = WeakArc_dtor w s"
| "exec (Upgrade w) s = map_sum id snd (WeakArc_upgrade w s)"

fun run :: "op list \<Rightarrow> state \<Rightarrow> error + state" where
  "run [] s = Inr s"
| "run (x # xs) s = (case exec x s of Inl e \<Rightarrow> Inl e | Inr s1 \<Rightarrow> run xs s1)"

section \<open>Well-formed heaps\<close>

text \<open>
  An invariant of the states a sequential client can reach from the empty heap: it holds
  of \<open>init_state\<close> and every call that returns preserves it (\<open>wf_init\<close>, \<open>wf_run\<close>
  below). First, every address in use lies below the allocator's next address.
\<close>

definition alloc_ok :: "state \<Rightarrow> bool" where
  "alloc_ok s \<longleftrightarrow>
     (\<forall>a x. arc_blocks s a = Some x \<longrightarrow> a < next_addr s) \<and>
     (\<forall>a x. weak_blocks s a = Some x \<longrightarrow> a < next_addr s) \<and>
     (\<forall>a x. sp_blocks s a = Some x \<longrightarrow> a < next_addr s) \<and>
     (\<forall>a x. arc_objs s a = Some x \<longrightarrow> a < next_addr s) \<and>
     (\<forall>a x. weak_objs s a = Some x \<longrightarrow> a < next_addr s)"

text \<open>
  Every live \<open>ArcControlBlock\<close> has its lock free and counts the \<open>Arc\<close> objects that
  point to it, of which there is at least one.
\<close>

definition count_ok :: "state \<Rightarrow> bool" where
  "count_ok s \<longleftrightarrow>
     (\<forall>b cb. arc_blocks s b = Some cb \<longrightarrow>
        mutex cb = Unlocked \<and> 1 \<le> ref_count cb \<and> ref_count cb = int (card (holders s b)))"

text \<open>
  Every live \<open>ArcControlBlock\<close> is the one owner of the library block of its \<open>data\<close>, and
  a library block with an owner left belongs to a live \<open>ArcControlBlock\<close>.
\<close>

definition own_ok :: "state \<Rightarrow> bool" where
  "own_ok s \<longleftrightarrow>
     (\<forall>b cb. arc_blocks s b = Some cb \<longrightarrow>
        ctrl (data cb) \<noteq> None \<and>
        sp_blocks s (the (ctrl (data cb))) = Some \<lparr>use_count = 1, managed = stored (data cb)\<rparr>) \<and>
     (\<forall>b b' cb cb'. arc_blocks s b = Some cb \<longrightarrow> arc_blocks s b' = Some cb' \<longrightarrow>
        ctrl (data cb) = ctrl (data cb') \<longrightarrow> b = b') \<and>
     (\<forall>c blk. sp_blocks s c = Some blk \<longrightarrow> use_count blk \<noteq> 0 \<longrightarrow>
        (\<exists>b cb. arc_blocks s b = Some cb \<and> ctrl (data cb) = Some c))"

text \<open>Every \<open>Arc\<close> object points to a live block.\<close>

definition handles_ok :: "state \<Rightarrow> bool" where
  "handles_ok s \<longleftrightarrow>
     (\<forall>h. arc_objs s h \<noteq> Some None) \<and>
     (\<forall>h b. arc_objs s h = Some (Some b) \<longrightarrow> arc_blocks s b \<noteq> None)"

text \<open>
  Every \<open>WeakArc\<close> object points to a live \<open>WeakArcControlBlock\<close>, whose count is at least
  the number of such objects and whose \<open>weak_ptr\<close> refers to a library block managing the
  pointer it stores.
\<close>

definition weak_ok :: "state \<Rightarrow> bool" where
  "weak_ok s \<longleftrightarrow>
     (\<forall>w. weak_objs s w \<noteq> Some None) \<and>
     (\<forall>w wb. weak_objs s w = Some (Some wb) \<longrightarrow> weak_blocks s wb \<noteq> None) \<and>
     (\<forall>wb wcb. weak_blocks s wb = Some wcb \<longrightarrow>
        int (card (weak_holders s wb)) \<le> weak_ref_count wcb \<and>
        ctrl (weak_data wcb) \<noteq> None \<and>
        map_option managed (sp_blocks s (the (ctrl (weak_data wcb)))) =
          Some (stored (weak_data wcb)))"

definition wf :: "state \<Rightarrow> bool" where
  "wf s \<longleftrightarrow> alloc_ok s \<and> handles_ok s \<and> count_ok s \<and> own_ok s \<and> weak_ok s"

section \<open>Evaluation\<close>

lemmas prim_defs = emit_def fetch_add_def fetch_sub_def load_def lock_def lock_shared_def
  unlock_def unlock_shared_def lock_both_def deleter_def sp_release_def weak_lock_def
  ArcControlBlock_new_def data_reset_def delete_block_def release_last_def
  weak_fetch_add_def weak_fetch_sub_def empty_ptr_def

lemmas op_defs = Arc_ctor_def Arc_copy_def Arc_release_def Arc_dtor_def Arc_assign_if_def
  Arc_operator_assign_def Arc_assign_def WeakArc_assign_if_def WeakArc_operator_assign_def
  Arc_get_def Arc_mutex_def Arc_clone_def get_mut_def WeakArc_ctor_def WeakArc_copy_def
  WeakArc_assign_def WeakArc_release_def WeakArc_dtor_def WeakArc_upgrade_def

lemmas obs_defs = strong_count_def weak_count_def lock_state_def

lemmas eval_defs = init_state_def prim_defs op_defs obs_defs Let_def

section \<open>What the calls compute\<close>

text \<open>The calls in closed form, on a handle that points to a live block.\<close>

lemma Arc_ctor_char:
  "Arc_ctor p s =
     (Suc (Suc (next_addr s)),
      s\<lparr>arc_blocks := (arc_blocks s)(Suc (next_addr s) \<mapsto>
            \<lparr>ref_count = 1, mutex = Unlocked, data = \<lparr>ctrl = Some (next_addr s), stored = p\<rparr>\<rparr>),
        sp_blocks := (sp_blocks s)(next_addr s \<mapsto> \<lparr>use_count = 1, managed = p\<rparr>),
        arc_objs := (arc_objs s)(Suc (Suc (next_addr s)) \<mapsto> Some (Suc (next_addr s))),
        next_addr := Suc (Suc (Suc (next_addr s)))\<rparr>)"
  by (simp add: Arc_ctor_def ArcControlBlock_new_def Let_def)

lemma Arc_copy_char:
  assumes "arc_objs s other = Some (Some b)" and "arc_blocks s b = Some cb"
  shows "Arc_copy other s =
     Inr (next_addr s,
          s\<lparr>arc_blocks := (arc_blocks s)(b \<mapsto> cb\<lparr>ref_count := ref_count cb + 1\<rparr>),
            arc_objs := (arc_objs s)(next_addr s \<mapsto> Some b),
            trace := trace s @ [FetchAdd b Relaxed],
            next_addr := Suc (next_addr s)\<rparr>)"
  using assms
  by (auto simp add: Arc_copy_def fetch_add_def emit_def Let_def intro!: state.equality)

lemma Arc_clone_char:
  assumes "arc_objs s this = Some (Some b)" and "arc_blocks s b = Some cb" and "mutex cb \<noteq> Writer"
  shows "Arc_clone this s =
     Inr (next_addr s,
          s\<lparr>arc_blocks := (arc_blocks s)(b \<mapsto> cb\<lparr>ref_count := ref_count cb + 1\<rparr>),
            arc_objs := (arc_objs s)(next_addr s \<mapsto> Some b),
            trace := trace s @ [LockShared b, FetchAdd b Relaxed, UnlockShared b],
            next_addr := Suc (next_addr s)\<rparr>)"
  using assms
  by (cases "mutex cb")
     (auto simp add: Arc_clone_def Arc_mutex_def lock_shared_def unlock_shared_def
        Arc_copy_def fetch_add_def emit_def Let_def
        intro!: state.equality ArcControlBlock.equality)

lemma Arc_release_decrement_only:
  assumes "arc_objs s this = Some (Some b)" and "arc_blocks s b = Some cb" and "ref_count cb \<noteq> 1"
  shows "Arc_release this s =
     Inr (s\<lparr>arc_blocks := (arc_blocks s)(b \<mapsto> cb\<lparr>ref_count := ref_count cb - 1\<rparr>),
            trace := trace s @ [FetchSub b Release]\<rparr>)"
  using assms
  by (auto simp add: Arc_release_def fetch_sub_def emit_def intro!: state.equality)

lemma Arc_release_blocked:
  assumes "arc_objs s this = Some (Some b)" and "arc_blocks s b = Some cb"
    and "ref_count cb = 1" and "mutex cb \<noteq> Unlocked"
  shows "Arc_release this s = Inl Blocked"
  using assms
  by (simp add: Arc_release_def fetch_sub_def emit_def release_last_def lock_def)

lemma Arc_release_last:
  assumes "arc_objs s this = Some (Some b)" and "arc_blocks s b = Some cb"
    and "ref_count cb = 1" and "mutex cb = Unlocked"
    and "data cb = \<lparr>ctrl = Some c, stored = p\<rparr>"
    and "sp_blocks s c = Some \<lparr>use_count = 1, managed = p\<rparr>"
  shows "Arc_release this s =
     Inr (s\<lparr>arc_blocks := (arc_blocks s)(b := None),
            sp_blocks := (sp_blocks s)(c \<mapsto> \<lparr>use_count = 0, managed = p\<rparr>),
            deleted := deleted s @ (case p of None \<Rightarrow> [] | Some a \<Rightarrow> [a]),
            trace := trace s @ [FetchSub b Release, Fence Acquire, Lock b, Load b Relaxed] @
                     (case p of None \<Rightarrow> [] | Some a \<Rightarrow> [Delete a]) @ [FreeBlock b, Unlock b]\<rparr>)"
  using assms
  by (cases p)
     (auto simp add: Arc_release_def fetch_sub_def emit_def release_last_def lock_def load_def
        data_reset_def delete_block_def sp_release_def deleter_def unlock_def empty_ptr_def Let_def
        intro!: state.equality)

lemma release_last_recheck_fails:
  assumes "arc_blocks s b = Some cb" and "ref_count cb \<noteq> 0" and "mutex cb = Unlocked"
  shows "release_last b s =
     Inr (s\<lparr>trace := trace s @ [Fence Acquire, Lock b, Load b Relaxed, Unlock b]\<rparr>)"
  using assms
  by (auto simp add: emit_def release_last_def lock_def load_def unlock_def
        intro!: state.equality ArcControlBlock.equality)

section \<open>The invariant and its preservation\<close>

lemma finite_holders: "alloc_ok s \<Longrightarrow> finite {h. arc_objs s h = Some y}"
proof -
  assume "alloc_ok s"
  then have "{h. arc_objs s h = Some y} \<subseteq> {..<next_addr s}"
    by (auto simp add: alloc_ok_def)
  then show ?thesis
    by (rule finite_subset) simp
qed

lemma finite_weak_holders: "alloc_ok s \<Longrightarrow> finite {h. weak_objs s h = Some y}"
proof -
  assume "alloc_ok s"
  then have "{h. weak_objs s h = Some y} \<subseteq> {..<next_addr s}"
    by (auto simp add: alloc_ok_def)
  then show ?thesis
    by (rule finite_subset) simp
qed

lemma fresh_None:
  assumes "alloc_ok s" and "next_addr s \<le> a"
  shows "arc_blocks s a = None" and "weak_blocks s a = None" and "sp_blocks s a = None"
    and "arc_objs s a = None" and "weak_objs s a = None"
proof -
  have "\<And>m::addr \<rightharpoonup> 'a. (\<forall>k x. m k = Some x \<longrightarrow> k < next_addr s) \<Longrightarrow> m a = None" for s' :: state
    using assms(2) by (metis not_less option.exhaust)
  with assms(1) show "arc_blocks s a = None" and "weak_blocks s a = None" and "sp_blocks s a = None"
    and "arc_objs s a = None" and "weak_objs s a = None"
    unfolding alloc_ok_def by blast+
qed

lemma wf_init: "wf init_state"
  by (simp add: wf_def alloc_ok_def count_ok_def own_ok_def handles_ok_def weak_ok_def init_state_def)

lemma count_okD:
  assumes "count_ok s" and "arc_blocks s b = Some cb"
  shows "mutex cb = Unlocked" and "1 \<le> ref_count cb"
    and "ref_count cb = int (card (holders s b))"
  using assms unfolding count_ok_def by blast+

lemma own_okD:
  assumes "own_ok s" and "arc_blocks s b = Some cb"
  shows "ctrl (data cb) \<noteq> None"
    and "sp_blocks s (the (ctrl (data cb))) = Some \<lparr>use_count = 1, managed = stored (data cb)\<rparr>"
  using assms unfolding own_ok_def by blast+

lemma own_ok_unique:
  assumes "own_ok s" and "arc_blocks s b = Some cb" and "arc_blocks s b' = Some cb'"
    and "ctrl (data cb) = ctrl (data cb')"
  shows "b = b'"
  using assms unfolding own_ok_def by blast

lemma own_ok_owner:
  assumes "own_ok s" and "sp_blocks s c = Some blk" and "use_count blk \<noteq> 0"
  shows "\<exists>b cb. arc_blocks s b = Some cb \<and> ctrl (data cb) = Some c"
  using assms unfolding own_ok_def by blast

lemma own_okI:
  assumes "\<And>b cb. arc_blocks s b = Some cb \<Longrightarrow>
             ctrl (data cb) \<noteq> None \<and>
             sp_blocks s (the (ctrl (data cb))) = Some \<lparr>use_count = 1, managed = stored (data cb)\<rparr>"
    and "\<And>b b' cb cb'. arc_blocks s b = Some cb \<Longrightarrow> arc_blocks s b' = Some cb' \<Longrightarrow>
             ctrl (data cb) = ctrl (data cb') \<Longrightarrow> b = b'"
    and "\<And>c blk. sp_blocks s c = Some blk \<Longrightarrow> use_count blk \<noteq> 0 \<Longrightarrow>
             \<exists>b cb. arc_blocks s b = Some cb \<and> ctrl (data cb) = Some c"
  shows "own_ok s"
  unfolding own_ok_def using assms by blast

lemma handles_okD:
  assumes "handles_ok s" and "arc_objs s h = Some cbp"
  shows "\<exists>b cb. cbp = Some b \<and> arc_blocks s b = Some cb"
  using assms unfolding handles_ok_def by (cases cbp) auto

lemma weak_okD:
  assumes "weak_ok s" and "weak_objs s w = Some cbp"
  shows "\<exists>wb wcb. cbp = Some wb \<and> weak_blocks s wb = Some wcb"
  using assms unfolding weak_ok_def by (cases cbp) auto

lemma holders_finite: "alloc_ok s \<Longrightarrow> finite (holders s b)"
  unfolding holders_def by (rule finite_holders)

lemma weak_holders_finite: "alloc_ok s \<Longrightarrow> finite (weak_holders s b)"
  unfolding weak_holders_def by (rule finite_weak_holders)

text \<open>Frames: each part of the invariant looks at some fields of the state only.\<close>

lemma alloc_ok_frame:
  assumes "alloc_ok s" and "arc_blocks s' = arc_blocks s" and "weak_blocks s' = weak_blocks s"
    and "sp_blocks s' = sp_blocks s" and "arc_objs s' = arc_objs s" and "weak_objs s' = weak_objs s"
    and "next_addr s \<le> next_addr s'"
  shows "alloc_ok s'"
  using assms unfolding alloc_ok_def by (auto intro: less_le_trans)

lemma handles_ok_frame:
  assumes "handles_ok s" and "arc_objs s' = arc_objs s" and "dom (arc_blocks s') = dom (arc_blocks s)"
  shows "handles_ok s'"
  using assms unfolding handles_ok_def by (metis domIff)

lemma count_ok_frame:
  assumes "count_ok s" and "arc_blocks s' = arc_blocks s" and "arc_objs s' = arc_objs s"
  shows "count_ok s'"
  using assms(1) unfolding count_ok_def holders_def assms(2) assms(3) .

lemma own_ok_frame:
  assumes "own_ok s" and "sp_blocks s' = sp_blocks s"
    and "\<And>b. map_option data (arc_blocks s' b) = map_option data (arc_blocks s b)"
  shows "own_ok s'"
proof (rule own_okI)
  fix b cb
  assume "arc_blocks s' b = Some cb"
  with assms(3) [of b] obtain cb0 where o: "arc_blocks s b = Some cb0" "data cb0 = data cb"
    by (cases "arc_blocks s b") auto
  from own_okD [OF assms(1) o(1)] o(2) assms(2)
  show "ctrl (data cb) \<noteq> None \<and>
        sp_blocks s' (the (ctrl (data cb))) = Some \<lparr>use_count = 1, managed = stored (data cb)\<rparr>"
    by simp
next
  fix b b' cb cb'
  assume 1: "arc_blocks s' b = Some cb" and 2: "arc_blocks s' b' = Some cb'"
    and 3: "ctrl (data cb) = ctrl (data cb')"
  from 1 assms(3) [of b] obtain cb0 where o: "arc_blocks s b = Some cb0" "data cb0 = data cb"
    by (cases "arc_blocks s b") auto
  from 2 assms(3) [of b'] obtain cb0' where o': "arc_blocks s b' = Some cb0'" "data cb0' = data cb'"
    by (cases "arc_blocks s b'") auto
  from 3 o(2) o'(2) have "ctrl (data cb0) = ctrl (data cb0')" by simp
  with o(1) o'(1) show "b = b'" by (rule own_ok_unique [OF assms(1)])
next
  fix c blk
  assume "sp_blocks s' c = Some blk" and used: "use_count blk \<noteq> 0"
  then have "sp_blocks s c = Some blk" by (simp add: assms(2))
  from own_ok_owner [OF assms(1) this used]
  obtain b cb where o: "arc_blocks s b = Some cb" "ctrl (data cb) = Some c" by blast
  with assms(3) [of b] obtain cb' where "arc_blocks s' b = Some cb'" "data cb' = data cb"
    by (cases "arc_blocks s' b") auto
  with o(2) have "arc_blocks s' b = Some cb' \<and> ctrl (data cb') = Some c" by simp
  then show "\<exists>b cb. arc_blocks s' b = Some cb \<and> ctrl (data cb) = Some c" by blast
qed

lemma weak_ok_frame:
  assumes "weak_ok s" and "weak_blocks s' = weak_blocks s" and "weak_objs s' = weak_objs s"
    and "\<And>c blk. sp_blocks s c = Some blk \<Longrightarrow> map_option managed (sp_blocks s' c) = Some (managed blk)"
  shows "weak_ok s'"
proof -
  have "map_option managed (sp_blocks s' c) = Some p"
    if "map_option managed (sp_blocks s c) = Some p" for c p
    using that assms(4) [of c] by (cases "sp_blocks s c") auto
  then show ?thesis
    using assms(1-3) unfolding weak_ok_def weak_holders_def by simp
qed

text \<open>The constructor.\<close>

lemma alloc_ok_Arc_ctor: "alloc_ok s \<Longrightarrow> alloc_ok (snd (Arc_ctor p s))"
  by (auto simp add: alloc_ok_def Arc_ctor_char split: if_splits intro: less_SucI)

lemma handles_ok_Arc_ctor: "handles_ok s \<Longrightarrow> handles_ok (snd (Arc_ctor p s))"
  by (auto simp add: handles_ok_def Arc_ctor_char split: if_splits)

lemma count_ok_Arc_ctor:
  assumes "alloc_ok s" and "handles_ok s" and "count_ok s"
  shows "count_ok (snd (Arc_ctor p s))"
proof -
  let ?s' = "snd (Arc_ctor p s)"
  let ?c = "next_addr s"
  let ?b = "Suc (next_addr s)"
  let ?h = "Suc (Suc (next_addr s))"
  let ?cb = "\<lparr>ref_count = 1, mutex = Unlocked, data = \<lparr>ctrl = Some ?c, stored = p\<rparr>\<rparr>"
  have blocks: "arc_blocks ?s' = (arc_blocks s)(?b \<mapsto> ?cb)"
    and objs: "arc_objs ?s' = (arc_objs s)(?h \<mapsto> Some ?b)"
    by (simp_all add: Arc_ctor_char)
  have fb: "arc_blocks s ?b = None" and fh: "arc_objs s ?h = None"
    using fresh_None [OF assms(1)] by simp_all
  have no_old: "arc_objs s h \<noteq> Some (Some ?b)" for h
    using handles_okD [OF assms(2), of h "Some ?b"] fb by auto
  have hold_new: "holders ?s' ?b = {?h}"
    using no_old by (auto simp add: holders_def objs)
  have hold_old: "holders ?s' b = holders s b" if "b \<noteq> ?b" for b
    using that fh by (auto simp add: holders_def objs)
  show ?thesis
    unfolding count_ok_def
  proof (intro allI impI)
    fix b cb
    assume live: "arc_blocks ?s' b = Some cb"
    show "mutex cb = Unlocked \<and> 1 \<le> ref_count cb \<and> ref_count cb = int (card (holders ?s' b))"
    proof (cases "b = ?b")
      case True
      with live have "cb = ?cb" by (simp add: blocks)
      with True show ?thesis by (simp add: hold_new)
    next
      case False
      with live have old: "arc_blocks s b = Some cb" by (simp add: blocks)
      from count_okD [OF assms(3) old] False show ?thesis
        by (simp add: hold_old)
    qed
  qed
qed

lemma own_ok_Arc_ctor:
  assumes "alloc_ok s" and "own_ok s"
  shows "own_ok (snd (Arc_ctor p s))"
proof -
  let ?s' = "snd (Arc_ctor p s)"
  let ?c = "next_addr s"
  let ?b = "Suc (next_addr s)"
  let ?cb = "\<lparr>ref_count = 1, mutex = Unlocked, data = \<lparr>ctrl = Some ?c, stored = p\<rparr>\<rparr>"
  have blocks: "arc_blocks ?s' = (arc_blocks s)(?b \<mapsto> ?cb)"
    and sps: "sp_blocks ?s' = (sp_blocks s)(?c \<mapsto> \<lparr>use_count = 1, managed = p\<rparr>)"
    by (simp_all add: Arc_ctor_char)
  have fb: "arc_blocks s ?b = None" and fc: "sp_blocks s ?c = None"
    using fresh_None [OF assms(1)] by simp_all
  have other: "ctrl (data x) \<noteq> Some ?c" if "arc_blocks s a = Some x" for a x
    using own_okD [OF assms(2) that] fc by (cases "ctrl (data x)") auto
  show ?thesis
  proof (rule own_okI)
    fix b cb
    assume live: "arc_blocks ?s' b = Some cb"
    show "ctrl (data cb) \<noteq> None \<and>
          sp_blocks ?s' (the (ctrl (data cb))) = Some \<lparr>use_count = 1, managed = stored (data cb)\<rparr>"
    proof (cases "b = ?b")
      case True
      with live have "cb = ?cb" by (simp add: blocks)
      then show ?thesis by (simp add: sps)
    next
      case False
      with live have old: "arc_blocks s b = Some cb" by (simp add: blocks)
      from own_okD [OF assms(2) old] other [OF old] show ?thesis
        by (cases "ctrl (data cb)") (simp_all add: sps)
    qed
  next
    fix b b' cb cb'
    assume 1: "arc_blocks ?s' b = Some cb" and 2: "arc_blocks ?s' b' = Some cb'"
      and 3: "ctrl (data cb) = ctrl (data cb')"
    consider "b = ?b" "b' = ?b" | "b = ?b" "b' \<noteq> ?b" | "b \<noteq> ?b" "b' = ?b" | "b \<noteq> ?b" "b' \<noteq> ?b"
      by blast
    then show "b = b'"
    proof cases
      case 1
      then show ?thesis by simp
    next
      case 2
      with \<open>arc_blocks ?s' b = Some cb\<close> \<open>arc_blocks ?s' b' = Some cb'\<close>
      have "cb = ?cb" and "arc_blocks s b' = Some cb'" by (simp_all add: blocks)
      with 3 other [of b' cb'] show ?thesis by simp
    next
      case 3
      with \<open>arc_blocks ?s' b = Some cb\<close> \<open>arc_blocks ?s' b' = Some cb'\<close>
      have "cb' = ?cb" and "arc_blocks s b = Some cb" by (simp_all add: blocks)
      with \<open>ctrl (data cb) = ctrl (data cb')\<close> other [of b cb] show ?thesis by simp
    next
      case 4
      with \<open>arc_blocks ?s' b = Some cb\<close> \<open>arc_blocks ?s' b' = Some cb'\<close>
      have "arc_blocks s b = Some cb" and "arc_blocks s b' = Some cb'" by (simp_all add: blocks)
      then show ?thesis
        using \<open>ctrl (data cb) = ctrl (data cb')\<close> by (rule own_ok_unique [OF assms(2)])
    qed
  next
    fix c blk
    assume sp: "sp_blocks ?s' c = Some blk" and used: "use_count blk \<noteq> 0"
    show "\<exists>b cb. arc_blocks ?s' b = Some cb \<and> ctrl (data cb) = Some c"
    proof (cases "c = ?c")
      case True
      then have "arc_blocks ?s' ?b = Some ?cb \<and> ctrl (data ?cb) = Some c"
        by (simp add: blocks)
      then show ?thesis by blast
    next
      case False
      with sp have "sp_blocks s c = Some blk" by (simp add: sps)
      from own_ok_owner [OF assms(2) this used]
      obtain b0 cb0 where o: "arc_blocks s b0 = Some cb0" "ctrl (data cb0) = Some c" by blast
      with fb have "b0 \<noteq> ?b" by auto
      with o have "arc_blocks ?s' b0 = Some cb0 \<and> ctrl (data cb0) = Some c"
        by (simp add: blocks)
      then show ?thesis by blast
    qed
  qed
qed

lemma weak_ok_Arc_ctor:
  assumes "alloc_ok s" and "weak_ok s"
  shows "weak_ok (snd (Arc_ctor p s))"
  using assms(2)
proof (rule weak_ok_frame)
  fix c blk
  assume "sp_blocks s c = Some blk"
  with fresh_None(3) [OF assms(1), of "next_addr s"]
  show "map_option managed (sp_blocks (snd (Arc_ctor p s)) c) = Some (managed blk)"
    by (auto simp add: Arc_ctor_char)
qed (simp_all add: Arc_ctor_char)

lemma wf_Arc_ctor: "wf s \<Longrightarrow> wf (snd (Arc_ctor p s))"
  unfolding wf_def
  by (simp add: alloc_ok_Arc_ctor handles_ok_Arc_ctor count_ok_Arc_ctor own_ok_Arc_ctor
      weak_ok_Arc_ctor)


text \<open>One more \<open>Arc\<close> object on a live block, the count raised by one.\<close>

lemma wf_add_holder:
  assumes "wf s" and live: "arc_blocks s b = Some cb"
    and blocks: "arc_blocks s' = (arc_blocks s)(b \<mapsto> cb\<lparr>ref_count := ref_count cb + 1\<rparr>)"
    and fh: "arc_objs s h = None"
    and objs: "arc_objs s' = (arc_objs s)(h \<mapsto> Some b)"
    and same: "weak_blocks s' = weak_blocks s" "sp_blocks s' = sp_blocks s"
      "weak_objs s' = weak_objs s"
    and nxt: "next_addr s \<le> next_addr s'" "h < next_addr s'"
  shows "wf s'"
proof -
  from assms(1) have A: "alloc_ok s" and H: "handles_ok s" and C: "count_ok s"
    and O: "own_ok s" and W: "weak_ok s"
    by (simp_all add: wf_def)
  have 1: "alloc_ok s'"
    using A live nxt unfolding alloc_ok_def blocks objs same
    by (auto intro: less_le_trans split: if_splits)
  have 2: "handles_ok s'"
    using H live unfolding handles_ok_def blocks objs by auto
  have hold_b: "holders s' b = insert h (holders s b)"
    by (auto simp add: holders_def objs)
  have hold_other: "holders s' b' = holders s b'" if "b' \<noteq> b" for b'
    using that fh by (auto simp add: holders_def objs)
  have nin: "h \<notin> holders s b"
    using fh by (simp add: holders_def)
  have 3: "count_ok s'"
    unfolding count_ok_def
  proof (intro allI impI)
    fix b' cb'
    assume l': "arc_blocks s' b' = Some cb'"
    show "mutex cb' = Unlocked \<and> 1 \<le> ref_count cb' \<and> ref_count cb' = int (card (holders s' b'))"
    proof (cases "b' = b")
      case True
      with l' have "cb' = cb\<lparr>ref_count := ref_count cb + 1\<rparr>" by (simp add: blocks)
      with count_okD [OF C live] True show ?thesis
        by (simp add: hold_b nin holders_finite [OF A])
    next
      case False
      with l' have "arc_blocks s b' = Some cb'" by (simp add: blocks)
      from count_okD [OF C this] False show ?thesis by (simp add: hold_other)
    qed
  qed
  have 4: "own_ok s'"
    using O same(2)
  proof (rule own_ok_frame)
    fix b'
    show "map_option data (arc_blocks s' b') = map_option data (arc_blocks s b')"
      using live by (simp add: blocks)
  qed
  have 5: "weak_ok s'"
    using W same(1) same(3) by (rule weak_ok_frame) (simp add: same)
  from 1 2 3 4 5 show ?thesis by (simp add: wf_def)
qed

text \<open>One \<open>Arc\<close> object less on a block that keeps others, the count lowered by one.\<close>

lemma wf_drop_holder:
  assumes "wf s" and handle: "arc_objs s this = Some (Some b)" and live: "arc_blocks s b = Some cb"
    and more: "ref_count cb \<noteq> 1"
    and blocks: "arc_blocks s' = (arc_blocks s)(b \<mapsto> cb\<lparr>ref_count := ref_count cb - 1\<rparr>)"
    and objs: "arc_objs s' = (arc_objs s)(this := None)"
    and same: "weak_blocks s' = weak_blocks s" "sp_blocks s' = sp_blocks s"
      "weak_objs s' = weak_objs s" "next_addr s' = next_addr s"
  shows "wf s'"
proof -
  from assms(1) have A: "alloc_ok s" and H: "handles_ok s" and C: "count_ok s"
    and O: "own_ok s" and W: "weak_ok s"
    by (simp_all add: wf_def)
  have 1: "alloc_ok s'"
    using A live unfolding alloc_ok_def blocks objs same
    by (auto split: if_splits)
  have 2: "handles_ok s'"
    using H live unfolding handles_ok_def blocks objs by auto
  have hold_b: "holders s' b = holders s b - {this}"
    by (auto simp add: holders_def objs)
  have hold_other: "holders s' b' = holders s b'" if "b' \<noteq> b" for b'
    using that handle by (auto simp add: holders_def objs)
  have mem: "this \<in> holders s b"
    using handle by (simp add: holders_def)
  have 3: "count_ok s'"
    unfolding count_ok_def
  proof (intro allI impI)
    fix b' cb'
    assume l': "arc_blocks s' b' = Some cb'"
    show "mutex cb' = Unlocked \<and> 1 \<le> ref_count cb' \<and> ref_count cb' = int (card (holders s' b'))"
    proof (cases "b' = b")
      case True
      with l' have cb': "cb' = cb\<lparr>ref_count := ref_count cb - 1\<rparr>" by (simp add: blocks)
      have "card (holders s b - {this}) = card (holders s b) - 1"
        using mem holders_finite [OF A] by simp
      moreover have "1 \<le> card (holders s b)"
        using mem holders_finite [OF A] by (metis One_nat_def Suc_leI card_gt_0_iff empty_iff)
      ultimately show ?thesis
        using count_okD [OF C live] True more cb' by (simp add: hold_b)
    next
      case False
      with l' have "arc_blocks s b' = Some cb'" by (simp add: blocks)
      from count_okD [OF C this] False show ?thesis by (simp add: hold_other)
    qed
  qed
  have 4: "own_ok s'"
    using O same(2)
  proof (rule own_ok_frame)
    fix b'
    show "map_option data (arc_blocks s' b') = map_option data (arc_blocks s b')"
      using live by (simp add: blocks)
  qed
  have 5: "weak_ok s'"
    using W same(1) same(3) by (rule weak_ok_frame) (simp add: same)
  from 1 2 3 4 5 show ?thesis by (simp add: wf_def)
qed


text \<open>An \<open>Arc\<close> object moved from one live block to another that keeps other holders.\<close>

lemma wf_retarget:
  assumes "wf s" and handle: "arc_objs s this = Some (Some b1)"
    and live1: "arc_blocks s b1 = Some cb1" and live2: "arc_blocks s b2 = Some cb2"
    and ne: "b1 \<noteq> b2" and more: "ref_count cb1 \<noteq> 1"
    and blocks: "arc_blocks s' = (arc_blocks s)(b1 \<mapsto> cb1\<lparr>ref_count := ref_count cb1 - 1\<rparr>,
                                               b2 \<mapsto> cb2\<lparr>ref_count := ref_count cb2 + 1\<rparr>)"
    and objs: "arc_objs s' = (arc_objs s)(this \<mapsto> Some b2)"
    and same: "weak_blocks s' = weak_blocks s" "sp_blocks s' = sp_blocks s"
      "weak_objs s' = weak_objs s" "next_addr s' = next_addr s"
  shows "wf s'"
proof -
  let ?s1 = "s\<lparr>arc_blocks := (arc_blocks s)(b1 \<mapsto> cb1\<lparr>ref_count := ref_count cb1 - 1\<rparr>),
               arc_objs := (arc_objs s)(this := None)\<rparr>"
  have 1: "wf ?s1"
    using assms(1) handle live1 more by (rule wf_drop_holder) simp_all
  have 2: "arc_blocks ?s1 b2 = Some cb2"
    using live2 ne by simp
  have 3: "arc_blocks s' = (arc_blocks ?s1)(b2 \<mapsto> cb2\<lparr>ref_count := ref_count cb2 + 1\<rparr>)"
    by (simp add: blocks)
  have 4: "arc_objs ?s1 this = None"
    by simp
  have 5: "arc_objs s' = (arc_objs ?s1)(this \<mapsto> Some b2)"
    by (simp add: objs)
  have 6: "this < next_addr s"
    using assms(1) handle by (auto simp add: wf_def alloc_ok_def)
  show ?thesis
    by (rule wf_add_holder [OF 1 2 3 4 5]) (simp_all add: same 6)
qed

text \<open>The last \<open>Arc\<close> object of a block gone, with the block and its payload.\<close>

lemma wf_drop_last:
  assumes "wf s" and handle: "arc_objs s this = Some (Some b)" and live: "arc_blocks s b = Some cb"
    and last: "ref_count cb = 1" and c: "ctrl (data cb) = Some c"
    and blocks: "arc_blocks s' = (arc_blocks s)(b := None)"
    and sps: "sp_blocks s' = (sp_blocks s)(c \<mapsto> \<lparr>use_count = 0, managed = stored (data cb)\<rparr>)"
    and objs: "arc_objs s' = (arc_objs s)(this := None)"
    and same: "weak_blocks s' = weak_blocks s" "weak_objs s' = weak_objs s"
      "next_addr s' = next_addr s"
  shows "wf s'"
proof -
  from assms(1) have A: "alloc_ok s" and H: "handles_ok s" and C: "count_ok s"
    and O: "own_ok s" and W: "weak_ok s"
    by (simp_all add: wf_def)
  have spc: "sp_blocks s c = Some \<lparr>use_count = 1, managed = stored (data cb)\<rparr>"
    using own_okD [OF O live] c by simp
  have mem: "this \<in> holders s b"
    using handle by (simp add: holders_def)
  have "card (holders s b) = 1"
    using count_okD(3) [OF C live] last by simp
  with mem have only: "holders s b = {this}"
    by (metis card_1_singletonE singletonD)
  have 1: "alloc_ok s'"
    using A spc unfolding alloc_ok_def blocks sps objs same
    by (auto split: if_splits)
  have 2: "handles_ok s'"
    unfolding handles_ok_def
  proof (intro conjI allI impI)
    fix h
    show "arc_objs s' h \<noteq> Some None"
      using H by (simp add: handles_ok_def objs)
  next
    fix h b'
    assume "arc_objs s' h = Some (Some b')"
    then have ne: "h \<noteq> this" and old: "arc_objs s h = Some (Some b')"
      by (auto simp add: objs split: if_splits)
    from old ne only have "b' \<noteq> b"
      by (auto simp add: holders_def)
    moreover from H old have "arc_blocks s b' \<noteq> None"
      by (simp add: handles_ok_def)
    ultimately show "arc_blocks s' b' \<noteq> None"
      by (simp add: blocks)
  qed
  have hold_other: "holders s' b' = holders s b'" if "b' \<noteq> b" for b'
    using that handle by (auto simp add: holders_def objs)
  have 3: "count_ok s'"
    unfolding count_ok_def
  proof (intro allI impI)
    fix b' cb'
    assume "arc_blocks s' b' = Some cb'"
    then have ne: "b' \<noteq> b" and old: "arc_blocks s b' = Some cb'"
      by (auto simp add: blocks split: if_splits)
    from count_okD [OF C old] ne
    show "mutex cb' = Unlocked \<and> 1 \<le> ref_count cb' \<and> ref_count cb' = int (card (holders s' b'))"
      by (simp add: hold_other)
  qed
  have other: "ctrl (data cb') \<noteq> Some c" if "arc_blocks s b' = Some cb'" and "b' \<noteq> b" for b' cb'
    using own_ok_unique [OF O that(1) live] that(2) c by auto
  have 4: "own_ok s'"
  proof (rule own_okI)
    fix b' cb'
    assume "arc_blocks s' b' = Some cb'"
    then have ne: "b' \<noteq> b" and old: "arc_blocks s b' = Some cb'"
      by (auto simp add: blocks split: if_splits)
    from own_okD [OF O old] other [OF old ne]
    show "ctrl (data cb') \<noteq> None \<and>
          sp_blocks s' (the (ctrl (data cb'))) = Some \<lparr>use_count = 1, managed = stored (data cb')\<rparr>"
      by (cases "ctrl (data cb')") (simp_all add: sps)
  next
    fix b1 b2 cb1 cb2
    assume "arc_blocks s' b1 = Some cb1" and "arc_blocks s' b2 = Some cb2"
      and eq: "ctrl (data cb1) = ctrl (data cb2)"
    then have "arc_blocks s b1 = Some cb1" and "arc_blocks s b2 = Some cb2"
      by (auto simp add: blocks split: if_splits)
    then show "b1 = b2"
      using eq by (rule own_ok_unique [OF O])
  next
    fix c' blk
    assume sp': "sp_blocks s' c' = Some blk" and used: "use_count blk \<noteq> 0"
    then have ne: "c' \<noteq> c" and old: "sp_blocks s c' = Some blk"
      by (auto simp add: sps split: if_splits)
    from own_ok_owner [OF O old used]
    obtain b0 cb0 where o: "arc_blocks s b0 = Some cb0" "ctrl (data cb0) = Some c'" by blast
    with ne c live have "b0 \<noteq> b" by auto
    with o have "arc_blocks s' b0 = Some cb0 \<and> ctrl (data cb0) = Some c'"
      by (simp add: blocks)
    then show "\<exists>b cb. arc_blocks s' b = Some cb \<and> ctrl (data cb) = Some c'" by blast
  qed
  have 5: "weak_ok s'"
    using W same(1) same(2)
  proof (rule weak_ok_frame)
    fix c' blk
    assume "sp_blocks s c' = Some blk"
    with spc show "map_option managed (sp_blocks s' c') = Some (managed blk)"
      by (auto simp add: sps)
  qed
  from 1 2 3 4 5 show ?thesis by (simp add: wf_def)
qed


text \<open>The member functions of \<open>Arc\<close> on well-formed states.\<close>

lemma wf_handle:
  assumes "wf s" and "arc_objs s h = Some cbp"
  obtains b cb where "cbp = Some b" and "arc_blocks s b = Some cb" and "mutex cb = Unlocked"
    and "1 \<le> ref_count cb"
    and "data cb = \<lparr>ctrl = Some (the (ctrl (data cb))), stored = stored (data cb)\<rparr>"
    and "sp_blocks s (the (ctrl (data cb))) = Some \<lparr>use_count = 1, managed = stored (data cb)\<rparr>"
proof -
  from assms have H: "handles_ok s" and C: "count_ok s" and O: "own_ok s"
    by (simp_all add: wf_def)
  from handles_okD [OF H assms(2)] obtain b cb where b: "cbp = Some b" "arc_blocks s b = Some cb"
    by blast
  from own_okD(1) [OF O b(2)]
  have d: "data cb = \<lparr>ctrl = Some (the (ctrl (data cb))), stored = stored (data cb)\<rparr>"
    by (cases "data cb") auto
  show thesis
    by (rule that [OF b(1) b(2) count_okD(1) [OF C b(2)] count_okD(2) [OF C b(2)] d
          own_okD(2) [OF O b(2)]])
qed

lemma wf_trace_deleted: "wf (s\<lparr>trace := t\<rparr>) = wf s" "wf (s\<lparr>deleted := d\<rparr>) = wf s"
  by (simp_all add: wf_def alloc_ok_def handles_ok_def count_ok_def own_ok_def weak_ok_def
      holders_def weak_holders_def)

lemma wf_Arc_copy:
  assumes "wf s" and "Arc_copy other s = Inr (h, s')"
  shows "wf s'"
proof -
  from assms(2) obtain cbp where o: "arc_objs s other = Some cbp"
    by (cases "arc_objs s other") (simp_all add: Arc_copy_def)
  from wf_handle [OF assms(1) o] obtain b cb where b: "cbp = Some b" "arc_blocks s b = Some cb"
    by metis
  from Arc_copy_char [of s other b cb] o b assms(2)
  have s': "s' = s\<lparr>arc_blocks := (arc_blocks s)(b \<mapsto> cb\<lparr>ref_count := ref_count cb + 1\<rparr>),
            arc_objs := (arc_objs s)(next_addr s \<mapsto> Some b),
            trace := trace s @ [FetchAdd b Relaxed],
            next_addr := Suc (next_addr s)\<rparr>"
    by simp
  have fh: "arc_objs s (next_addr s) = None"
    using assms(1) fresh_None(4) [of s "next_addr s"] by (simp add: wf_def)
  show ?thesis
    by (rule wf_add_holder [OF assms(1) b(2) _ fh]) (simp_all add: s')
qed

lemma wf_Arc_clone:
  assumes "wf s" and "Arc_clone this s = Inr (h, s')"
  shows "wf s'"
proof -
  from assms(2) obtain cbp where o: "arc_objs s this = Some cbp"
    by (cases "arc_objs s this") (simp_all add: Arc_clone_def Arc_mutex_def)
  from wf_handle [OF assms(1) o] obtain b cb where b: "cbp = Some b" "arc_blocks s b = Some cb"
    "mutex cb = Unlocked"
    by metis
  from Arc_clone_char [of s this b cb] o b assms(2)
  have s': "s' = s\<lparr>arc_blocks := (arc_blocks s)(b \<mapsto> cb\<lparr>ref_count := ref_count cb + 1\<rparr>),
            arc_objs := (arc_objs s)(next_addr s \<mapsto> Some b),
            trace := trace s @ [LockShared b, FetchAdd b Relaxed, UnlockShared b],
            next_addr := Suc (next_addr s)\<rparr>"
    by simp
  have fh: "arc_objs s (next_addr s) = None"
    using assms(1) fresh_None(4) [of s "next_addr s"] by (simp add: wf_def)
  show ?thesis
    by (rule wf_add_holder [OF assms(1) b(2) _ fh]) (simp_all add: s')
qed

lemma get_mut_char:
  assumes "arc_objs s arc = Some (Some b)" and "arc_blocks s b = Some cb" and "mutex cb = Unlocked"
  shows "get_mut arc s = Inr (stored (data cb), s\<lparr>trace := trace s @ [Lock b, Unlock b]\<rparr>)"
  using assms
  by (auto simp add: get_mut_def Arc_mutex_def Arc_get_def lock_def unlock_def emit_def
        intro!: state.equality ArcControlBlock.equality)

lemma wf_get_mut:
  assumes "wf s" and "get_mut arc s = Inr (p, s')"
  shows "wf s'"
proof -
  from assms(2) obtain cbp where o: "arc_objs s arc = Some cbp"
    by (cases "arc_objs s arc") (simp_all add: get_mut_def Arc_mutex_def)
  from wf_handle [OF assms(1) o] obtain b cb where b: "cbp = Some b" "arc_blocks s b = Some cb"
    "mutex cb = Unlocked"
    by metis
  from get_mut_char [of s arc b cb] o b assms(2)
  have "s' = s\<lparr>trace := trace s @ [Lock b, Unlock b]\<rparr>"
    by simp
  with assms(1) show ?thesis by (simp add: wf_trace_deleted)
qed

lemma Arc_dtor_char:
  assumes "wf s" and "arc_objs s this = Some (Some b)" and "arc_blocks s b = Some cb"
  shows "Arc_dtor this s =
     Inr (if ref_count cb = 1
          then s\<lparr>arc_blocks := (arc_blocks s)(b := None),
                 sp_blocks := (sp_blocks s)(the (ctrl (data cb)) \<mapsto>
                                \<lparr>use_count = 0, managed = stored (data cb)\<rparr>),
                 arc_objs := (arc_objs s)(this := None),
                 deleted := deleted s @ (case stored (data cb) of None \<Rightarrow> [] | Some a \<Rightarrow> [a]),
                 trace := trace s @ [FetchSub b Release, Fence Acquire, Lock b, Load b Relaxed] @
                     (case stored (data cb) of None \<Rightarrow> [] | Some a \<Rightarrow> [Delete a]) @
                     [FreeBlock b, Unlock b]\<rparr>
          else s\<lparr>arc_blocks := (arc_blocks s)(b \<mapsto> cb\<lparr>ref_count := ref_count cb - 1\<rparr>),
                 arc_objs := (arc_objs s)(this := None),
                 trace := trace s @ [FetchSub b Release]\<rparr>)"
proof -
  from assms(1) have C: "count_ok s" and O: "own_ok s"
    by (simp_all add: wf_def)
  have m: "mutex cb = Unlocked"
    by (rule count_okD(1) [OF C assms(3)])
  have d: "data cb = \<lparr>ctrl = Some (the (ctrl (data cb))), stored = stored (data cb)\<rparr>"
    using own_okD(1) [OF O assms(3)] by (cases "data cb") auto
  have sp: "sp_blocks s (the (ctrl (data cb))) = Some \<lparr>use_count = 1, managed = stored (data cb)\<rparr>"
    by (rule own_okD(2) [OF O assms(3)])
  show ?thesis
  proof (cases "ref_count cb = 1")
    case True
    note rel = Arc_release_last [OF assms(2,3) True m d sp]
    show ?thesis
      unfolding Arc_dtor_def rel
      by (auto simp add: True intro!: state.equality)
  next
    case False
    note rel = Arc_release_decrement_only [OF assms(2,3) False]
    show ?thesis
      unfolding Arc_dtor_def rel
      by (auto simp add: False intro!: state.equality)
  qed
qed

lemma wf_Arc_dtor:
  assumes "wf s" and "Arc_dtor this s = Inr s'"
  shows "wf s'"
proof -
  from assms(2) obtain cbp where o: "arc_objs s this = Some cbp"
    by (cases "arc_objs s this") (simp_all add: Arc_dtor_def Arc_release_def)
  from wf_handle [OF assms(1) o] obtain b cb where b: "cbp = Some b" "arc_blocks s b = Some cb"
    "ctrl (data cb) = Some (the (ctrl (data cb)))"
    by (metis std_ptr.select_convs(1))
  from o b have h: "arc_objs s this = Some (Some b)" by simp
  note ch = Arc_dtor_char [OF assms(1) h b(2)]
  show ?thesis
  proof (cases "ref_count cb = 1")
    case True
    with ch assms(2)
    have s': "s' = s\<lparr>arc_blocks := (arc_blocks s)(b := None),
                 sp_blocks := (sp_blocks s)(the (ctrl (data cb)) \<mapsto>
                                \<lparr>use_count = 0, managed = stored (data cb)\<rparr>),
                 arc_objs := (arc_objs s)(this := None),
                 deleted := deleted s @ (case stored (data cb) of None \<Rightarrow> [] | Some a \<Rightarrow> [a]),
                 trace := trace s @ [FetchSub b Release, Fence Acquire, Lock b, Load b Relaxed] @
                     (case stored (data cb) of None \<Rightarrow> [] | Some a \<Rightarrow> [Delete a]) @
                     [FreeBlock b, Unlock b]\<rparr>"
      by simp
    from assms(1) h b(2) True b(3) show ?thesis
      by (rule wf_drop_last) (simp_all add: s')
  next
    case False
    with ch assms(2)
    have s': "s' = s\<lparr>arc_blocks := (arc_blocks s)(b \<mapsto> cb\<lparr>ref_count := ref_count cb - 1\<rparr>),
                 arc_objs := (arc_objs s)(this := None),
                 trace := trace s @ [FetchSub b Release]\<rparr>"
      by simp
    from assms(1) h b(2) False show ?thesis
      by (rule wf_drop_holder) (simp_all add: s')
  qed
qed


lemma Arc_assign_if_one_block:
  assumes "this \<noteq> other" and "arc_objs s this = Some (Some b)" and "arc_objs s other = Some (Some b)"
    and "arc_blocks s b = Some cb"
  shows "Arc_assign_if this other s = Inl Blocked"
  using assms
  by (simp add: Arc_assign_if_def lock_both_def lock_def emit_def)

lemma Arc_assign_if_last_holder:
  assumes "this \<noteq> other" and "arc_objs s this = Some (Some b1)"
    and "arc_objs s other = Some (Some b2)" and "b1 \<noteq> b2"
    and "arc_blocks s b1 = Some cb1" and "arc_blocks s b2 = Some cb2"
    and "ref_count cb1 = 1"
  shows "Arc_assign_if this other s = Inl Blocked"
  using assms
  by (simp add: Arc_assign_if_def lock_both_def lock_def emit_def Arc_release_def fetch_sub_def
        release_last_def)

lemma Arc_assign_if_moves:
  assumes "this \<noteq> other" and "arc_objs s this = Some (Some b1)"
    and "arc_objs s other = Some (Some b2)" and "b1 \<noteq> b2"
    and "arc_blocks s b1 = Some cb1" and "arc_blocks s b2 = Some cb2"
    and "ref_count cb1 \<noteq> 1" and "mutex cb1 = Unlocked" and "mutex cb2 = Unlocked"
  shows "Arc_assign_if this other s =
     Inr (s\<lparr>arc_blocks := (arc_blocks s)(b1 \<mapsto> cb1\<lparr>ref_count := ref_count cb1 - 1\<rparr>,
                                          b2 \<mapsto> cb2\<lparr>ref_count := ref_count cb2 + 1\<rparr>),
            arc_objs := (arc_objs s)(this \<mapsto> Some b2),
            trace := trace s @ [Lock b1, Lock b2, FetchSub b1 Release, FetchAdd b2 Relaxed,
                                Unlock b2, Unlock b1]\<rparr>)"
  using assms
  by (auto simp add: Arc_assign_if_def lock_both_def lock_def emit_def Arc_release_def fetch_sub_def
        fetch_add_def unlock_def
        intro!: state.equality ArcControlBlock.equality ext)

lemma wf_Arc_assign_if:
  assumes "wf s" and "Arc_assign_if this other s = Inr s'"
  shows "wf s'"
proof (cases "this = other")
  case True
  with assms show ?thesis by (simp add: Arc_assign_if_def)
next
  case False
  from assms(2) False obtain cbp1 where o1: "arc_objs s this = Some cbp1"
    by (cases "arc_objs s this") (simp_all add: Arc_assign_if_def)
  from assms(2) False o1 obtain cbp2 where o2: "arc_objs s other = Some cbp2"
    by (cases "arc_objs s other") (simp_all add: Arc_assign_if_def)
  from wf_handle [OF assms(1) o1] obtain b1 cb1 where b1: "cbp1 = Some b1"
    "arc_blocks s b1 = Some cb1" "mutex cb1 = Unlocked"
    by metis
  from wf_handle [OF assms(1) o2] obtain b2 cb2 where b2: "cbp2 = Some b2"
    "arc_blocks s b2 = Some cb2" "mutex cb2 = Unlocked"
    by metis
  from o1 b1 have h1: "arc_objs s this = Some (Some b1)" by simp
  from o2 b2 have h2: "arc_objs s other = Some (Some b2)" by simp
  have ne: "b1 \<noteq> b2"
    using Arc_assign_if_one_block [OF False h1 _ b1(2)] h2 assms(2) by auto
  have more: "ref_count cb1 \<noteq> 1"
    using Arc_assign_if_last_holder [OF False h1 h2 ne b1(2) b2(2)] assms(2) by auto
  from Arc_assign_if_moves [OF False h1 h2 ne b1(2) b2(2) more b1(3) b2(3)] assms(2)
  have s': "s' = s\<lparr>arc_blocks := (arc_blocks s)(b1 \<mapsto> cb1\<lparr>ref_count := ref_count cb1 - 1\<rparr>,
                                          b2 \<mapsto> cb2\<lparr>ref_count := ref_count cb2 + 1\<rparr>),
            arc_objs := (arc_objs s)(this \<mapsto> Some b2),
            trace := trace s @ [Lock b1, Lock b2, FetchSub b1 Release, FetchAdd b2 Relaxed,
                                Unlock b2, Unlock b1]\<rparr>"
    by simp
  from assms(1) h1 b1(2) b2(2) ne more show ?thesis
    by (rule wf_retarget) (simp_all add: s')
qed

text \<open>The operator with its by-value result, and the assignment statement.\<close>

lemma Arc_assign_one_block:
  assumes "this \<noteq> other" and "arc_objs s this = Some (Some b)" and "arc_objs s other = Some (Some b)"
    and "arc_blocks s b = Some cb"
  shows "Arc_assign this other s = Inl Blocked"
  by (simp add: Arc_assign_def Arc_operator_assign_def Arc_assign_if_one_block [OF assms])

lemma Arc_assign_last_holder:
  assumes "this \<noteq> other" and "arc_objs s this = Some (Some b1)"
    and "arc_objs s other = Some (Some b2)" and "b1 \<noteq> b2"
    and "arc_blocks s b1 = Some cb1" and "arc_blocks s b2 = Some cb2"
    and "ref_count cb1 = 1"
  shows "Arc_assign this other s = Inl Blocked"
  by (simp add: Arc_assign_def Arc_operator_assign_def Arc_assign_if_last_holder [OF assms])

lemma wf_Arc_operator_assign:
  assumes "wf s" and "Arc_operator_assign this other s = Inr (t, s')"
  shows "wf s'"
proof (cases "Arc_assign_if this other s")
  case (Inl e)
  with assms(2) show ?thesis by (simp add: Arc_operator_assign_def)
next
  case (Inr s1)
  with assms(1) have "wf s1" by (rule wf_Arc_assign_if)
  moreover from Inr assms(2) have "Arc_copy this s1 = Inr (t, s')"
    by (simp add: Arc_operator_assign_def)
  ultimately show ?thesis by (rule wf_Arc_copy)
qed

lemma wf_Arc_assign:
  assumes "wf s" and "Arc_assign this other s = Inr s'"
  shows "wf s'"
proof (cases "Arc_operator_assign this other s")
  case (Inl e)
  with assms(2) show ?thesis by (simp add: Arc_assign_def)
next
  case (Inr r)
  obtain t s1 where r: "r = (t, s1)" by (cases r)
  with Inr assms(1) have "wf s1" by (auto dest: wf_Arc_operator_assign)
  moreover from Inr r assms(2) have "Arc_dtor t s1 = Inr s'"
    by (simp add: Arc_assign_def)
  ultimately show ?thesis by (rule wf_Arc_dtor)
qed

text \<open>The member functions of \<open>WeakArc\<close> in closed form.\<close>

lemma WeakArc_ctor_char:
  assumes "arc_objs s arc = Some (Some b)" and "arc_blocks s b = Some cb"
  shows "WeakArc_ctor arc s =
     Inr (Suc (next_addr s),
          s\<lparr>weak_blocks := (weak_blocks s)(next_addr s \<mapsto>
                 \<lparr>weak_ref_count = 1, weak_data = data cb\<rparr>),
            weak_objs := (weak_objs s)(Suc (next_addr s) \<mapsto> Some (next_addr s)),
            next_addr := Suc (Suc (next_addr s))\<rparr>)"
  using assms by (simp add: WeakArc_ctor_def Let_def)

lemma WeakArc_copy_char:
  assumes "weak_objs s other = Some (Some wb)" and "weak_blocks s wb = Some wcb"
  shows "WeakArc_copy other s =
     Inr (next_addr s,
          s\<lparr>weak_blocks := (weak_blocks s)(wb \<mapsto> wcb\<lparr>weak_ref_count := weak_ref_count wcb + 1\<rparr>),
            weak_objs := (weak_objs s)(next_addr s \<mapsto> Some wb),
            trace := trace s @ [WeakFetchAdd wb Relaxed],
            next_addr := Suc (next_addr s)\<rparr>)"
  using assms
  by (auto simp add: WeakArc_copy_def weak_fetch_add_def emit_def Let_def intro!: state.equality)

lemma WeakArc_assign_if_char:
  assumes "this \<noteq> other" and "weak_objs s this = Some cbp" and "weak_objs s other = Some (Some wb)"
    and "weak_blocks s wb = Some wcb"
  shows "WeakArc_assign_if this other s =
     Inr (s\<lparr>weak_blocks := (weak_blocks s)(wb \<mapsto> wcb\<lparr>weak_ref_count := weak_ref_count wcb + 1\<rparr>),
            weak_objs := (weak_objs s)(this \<mapsto> Some wb),
            trace := trace s @ [WeakFetchAdd wb Relaxed]\<rparr>)"
  using assms
  by (auto simp add: WeakArc_assign_if_def weak_fetch_add_def emit_def intro!: state.equality)

lemma WeakArc_dtor_char:
  assumes "weak_objs s this = Some (Some wb)" and "weak_blocks s wb = Some wcb"
  shows "WeakArc_dtor this s =
     Inr (if weak_ref_count wcb = 1
          then s\<lparr>weak_blocks := (weak_blocks s)(wb := None),
                 weak_objs := (weak_objs s)(this := None),
                 trace := trace s @ [WeakFetchSub wb Release, Fence Acquire, WeakFreeBlock wb]\<rparr>
          else s\<lparr>weak_blocks := (weak_blocks s)(wb \<mapsto> wcb\<lparr>weak_ref_count := weak_ref_count wcb - 1\<rparr>),
                 weak_objs := (weak_objs s)(this := None),
                 trace := trace s @ [WeakFetchSub wb Release]\<rparr>)"
  using assms
  by (auto simp add: WeakArc_dtor_def WeakArc_release_def weak_fetch_sub_def emit_def Let_def
        intro!: state.equality)

lemma WeakArc_upgrade_char:
  assumes "weak_objs s this = Some (Some wb)" and "weak_blocks s wb = Some wcb"
    and "ctrl (weak_data wcb) = Some c" and "sp_blocks s c = Some blk" and "c < next_addr s"
  shows "WeakArc_upgrade this s =
     Inr (Arc_ctor (if use_count blk = 0 then None else stored (weak_data wcb)) s)"
proof (cases "use_count blk = 0")
  case True
  with assms show ?thesis
    by (simp add: WeakArc_upgrade_def weak_lock_def empty_ptr_def sp_release_def
          split: prod.splits)
next
  case False
  let ?p = "stored (weak_data wcb)"
  let ?s1 = "s\<lparr>sp_blocks := (sp_blocks s)(c \<mapsto> blk\<lparr>use_count := Suc (use_count blk)\<rparr>)\<rparr>"
  have lk: "weak_lock (weak_data wcb) s = (\<lparr>ctrl = Some c, stored = ?p\<rparr>, ?s1)"
    using assms False by (simp add: weak_lock_def)
  have same: "(if ?p \<noteq> None then Arc_ctor ?p ?s1 else Arc_ctor None ?s1) = Arc_ctor ?p ?s1"
    by simp
  have undo: "sp_release \<lparr>ctrl = Some c, stored = ?p\<rparr> (snd (Arc_ctor ?p ?s1)) = snd (Arc_ctor ?p s)"
    using assms(4,5) False
    by (auto simp add: sp_release_def Arc_ctor_char Let_def intro!: state.equality ext)
  have fst_eq: "fst (Arc_ctor ?p ?s1) = fst (Arc_ctor ?p s)"
    by (simp add: Arc_ctor_char)
  have "WeakArc_upgrade this s =
          Inr (fst (Arc_ctor ?p ?s1),
               sp_release \<lparr>ctrl = Some c, stored = ?p\<rparr> (snd (Arc_ctor ?p ?s1)))"
    by (simp add: WeakArc_upgrade_def assms(1,2) lk split_beta)
  with undo fst_eq False show ?thesis by simp
qed


lemma weak_okD3:
  assumes "weak_ok s" and "weak_blocks s wb = Some wcb"
  shows "int (card (weak_holders s wb)) \<le> weak_ref_count wcb"
    and "ctrl (weak_data wcb) \<noteq> None"
    and "map_option managed (sp_blocks s (the (ctrl (weak_data wcb)))) = Some (stored (weak_data wcb))"
  using assms unfolding weak_ok_def by blast+

lemma weak_okI:
  assumes "\<And>w. weak_objs s w \<noteq> Some None"
    and "\<And>w wb. weak_objs s w = Some (Some wb) \<Longrightarrow> weak_blocks s wb \<noteq> None"
    and "\<And>wb wcb. weak_blocks s wb = Some wcb \<Longrightarrow>
           int (card (weak_holders s wb)) \<le> weak_ref_count wcb \<and>
           ctrl (weak_data wcb) \<noteq> None \<and>
           map_option managed (sp_blocks s (the (ctrl (weak_data wcb)))) =
             Some (stored (weak_data wcb))"
  shows "weak_ok s"
  unfolding weak_ok_def using assms by blast

lemma wf_weak_step:
  assumes "wf s" and "arc_blocks s' = arc_blocks s" and "sp_blocks s' = sp_blocks s"
    and "arc_objs s' = arc_objs s" and "alloc_ok s'" and "weak_ok s'"
  shows "wf s'"
proof -
  from assms(1) have H: "handles_ok s" and C: "count_ok s" and O: "own_ok s"
    by (simp_all add: wf_def)
  have "handles_ok s'"
    using H assms(4) by (rule handles_ok_frame) (simp add: assms(2))
  moreover have "count_ok s'"
    using C assms(2) assms(4) by (rule count_ok_frame)
  moreover have "own_ok s'"
    using O assms(3) by (rule own_ok_frame) (simp add: assms(2))
  ultimately show ?thesis
    using assms(5,6) by (simp add: wf_def)
qed

lemma wf_WeakArc_ctor:
  assumes "wf s" and "WeakArc_ctor arc s = Inr (w, s')"
  shows "wf s'"
proof -
  from assms(1) have A: "alloc_ok s" and O: "own_ok s" and W: "weak_ok s"
    by (simp_all add: wf_def)
  from assms(2) obtain cbp where o: "arc_objs s arc = Some cbp"
    by (cases "arc_objs s arc") (simp_all add: WeakArc_ctor_def)
  from wf_handle [OF assms(1) o] obtain b cb where b: "cbp = Some b" "arc_blocks s b = Some cb"
    by metis
  let ?wb = "next_addr s"
  let ?w = "Suc (next_addr s)"
  let ?wcb = "\<lparr>weak_ref_count = 1, weak_data = data cb\<rparr>"
  from WeakArc_ctor_char [of s arc b cb] o b assms(2)
  have s': "s' = s\<lparr>weak_blocks := (weak_blocks s)(?wb \<mapsto> ?wcb),
            weak_objs := (weak_objs s)(?w \<mapsto> Some ?wb),
            next_addr := Suc (Suc (next_addr s))\<rparr>"
    by simp
  have wbs: "weak_blocks s' = (weak_blocks s)(?wb \<mapsto> ?wcb)"
    and wos: "weak_objs s' = (weak_objs s)(?w \<mapsto> Some ?wb)"
    and sps: "sp_blocks s' = sp_blocks s"
    by (simp_all add: s')
  have fb: "weak_blocks s ?wb = None" and fw: "weak_objs s ?w = None"
    using fresh_None [OF A] by simp_all
  have no_old: "weak_objs s x \<noteq> Some (Some ?wb)" for x
    using weak_okD [OF W, of x "Some ?wb"] fb by auto
  have wh_new: "weak_holders s' ?wb = {?w}"
    using no_old by (auto simp add: weak_holders_def wos)
  have wh_old: "weak_holders s' wb = weak_holders s wb" if "wb \<noteq> ?wb" for wb
    using that fw by (auto simp add: weak_holders_def wos)
  have 1: "alloc_ok s'"
    using A unfolding alloc_ok_def s'
    by (auto intro: less_SucI split: if_splits)
  have 2: "weak_ok s'"
  proof (rule weak_okI)
    fix x
    show "weak_objs s' x \<noteq> Some None"
      using W by (simp add: weak_ok_def wos)
  next
    fix x wb
    assume "weak_objs s' x = Some (Some wb)"
    then show "weak_blocks s' wb \<noteq> None"
      using W by (auto simp add: weak_ok_def wos wbs split: if_splits)
  next
    fix wb wcb
    assume l: "weak_blocks s' wb = Some wcb"
    show "int (card (weak_holders s' wb)) \<le> weak_ref_count wcb \<and>
          ctrl (weak_data wcb) \<noteq> None \<and>
          map_option managed (sp_blocks s' (the (ctrl (weak_data wcb)))) =
            Some (stored (weak_data wcb))"
    proof (cases "wb = ?wb")
      case True
      with l have "wcb = ?wcb" by (simp add: wbs)
      with own_okD [OF O b(2)] True show ?thesis
        by (simp add: wh_new sps)
    next
      case False
      with l have "weak_blocks s wb = Some wcb" by (simp add: wbs)
      from weak_okD3 [OF W this] False show ?thesis
        by (simp add: wh_old sps)
    qed
  qed
  from assms(1) _ _ _ 1 2 show ?thesis
    by (rule wf_weak_step) (simp_all add: s')
qed

lemma wf_WeakArc_copy:
  assumes "wf s" and "WeakArc_copy other s = Inr (w, s')"
  shows "wf s'"
proof -
  from assms(1) have A: "alloc_ok s" and W: "weak_ok s"
    by (simp_all add: wf_def)
  from assms(2) obtain cbp where o: "weak_objs s other = Some cbp"
    by (cases "weak_objs s other") (simp_all add: WeakArc_copy_def)
  from weak_okD [OF W o] obtain wb wcb where b: "cbp = Some wb" "weak_blocks s wb = Some wcb"
    by blast
  let ?w = "next_addr s"
  from WeakArc_copy_char [of s other wb wcb] o b assms(2)
  have s': "s' = s\<lparr>weak_blocks := (weak_blocks s)(wb \<mapsto> wcb\<lparr>weak_ref_count := weak_ref_count wcb + 1\<rparr>),
            weak_objs := (weak_objs s)(?w \<mapsto> Some wb),
            trace := trace s @ [WeakFetchAdd wb Relaxed],
            next_addr := Suc (next_addr s)\<rparr>"
    by simp
  have wbs: "weak_blocks s' = (weak_blocks s)(wb \<mapsto> wcb\<lparr>weak_ref_count := weak_ref_count wcb + 1\<rparr>)"
    and wos: "weak_objs s' = (weak_objs s)(?w \<mapsto> Some wb)"
    and sps: "sp_blocks s' = sp_blocks s"
    by (simp_all add: s')
  have fw: "weak_objs s ?w = None"
    using fresh_None [OF A] by simp
  have wh_b: "weak_holders s' wb = insert ?w (weak_holders s wb)"
    by (auto simp add: weak_holders_def wos)
  have wh_other: "weak_holders s' x = weak_holders s x" if "x \<noteq> wb" for x
    using that fw by (auto simp add: weak_holders_def wos)
  have nin: "?w \<notin> weak_holders s wb"
    using fw by (simp add: weak_holders_def)
  have 1: "alloc_ok s'"
    using A b(2) unfolding alloc_ok_def s'
    by (auto intro: less_SucI split: if_splits)
  have 2: "weak_ok s'"
  proof (rule weak_okI)
    fix x
    show "weak_objs s' x \<noteq> Some None"
      using W by (simp add: weak_ok_def wos)
  next
    fix x y
    assume "weak_objs s' x = Some (Some y)"
    then show "weak_blocks s' y \<noteq> None"
      using W b(2) by (auto simp add: weak_ok_def wos wbs split: if_splits)
  next
    fix x wcb'
    assume l: "weak_blocks s' x = Some wcb'"
    show "int (card (weak_holders s' x)) \<le> weak_ref_count wcb' \<and>
          ctrl (weak_data wcb') \<noteq> None \<and>
          map_option managed (sp_blocks s' (the (ctrl (weak_data wcb')))) =
            Some (stored (weak_data wcb'))"
    proof (cases "x = wb")
      case True
      with l have "wcb' = wcb\<lparr>weak_ref_count := weak_ref_count wcb + 1\<rparr>" by (simp add: wbs)
      with weak_okD3 [OF W b(2)] True show ?thesis
        by (simp add: wh_b nin weak_holders_finite [OF A] sps)
    next
      case False
      with l have "weak_blocks s x = Some wcb'" by (simp add: wbs)
      from weak_okD3 [OF W this] False show ?thesis
        by (simp add: wh_other sps)
    qed
  qed
  from assms(1) _ _ _ 1 2 show ?thesis
    by (rule wf_weak_step) (simp_all add: s')
qed


lemma wf_WeakArc_assign_if:
  assumes "wf s" and "WeakArc_assign_if this other s = Inr s'"
  shows "wf s'"
proof (cases "this = other")
  case True
  with assms show ?thesis by (simp add: WeakArc_assign_if_def)
next
  case False
  from assms(1) have A: "alloc_ok s" and W: "weak_ok s"
    by (simp_all add: wf_def)
  from assms(2) False obtain cbp1 where o1: "weak_objs s this = Some cbp1"
    by (cases "weak_objs s this") (simp_all add: WeakArc_assign_if_def)
  from assms(2) False o1 obtain cbp2 where o2: "weak_objs s other = Some cbp2"
    by (cases "weak_objs s other") (simp_all add: WeakArc_assign_if_def)
  from weak_okD [OF W o2] obtain wb wcb where b: "cbp2 = Some wb" "weak_blocks s wb = Some wcb"
    by blast
  from WeakArc_assign_if_char [of this other s cbp1 wb wcb] False o1 o2 b assms(2)
  have s': "s' = s\<lparr>weak_blocks := (weak_blocks s)(wb \<mapsto> wcb\<lparr>weak_ref_count := weak_ref_count wcb + 1\<rparr>),
            weak_objs := (weak_objs s)(this \<mapsto> Some wb),
            trace := trace s @ [WeakFetchAdd wb Relaxed]\<rparr>"
    by simp
  have wbs: "weak_blocks s' = (weak_blocks s)(wb \<mapsto> wcb\<lparr>weak_ref_count := weak_ref_count wcb + 1\<rparr>)"
    and wos: "weak_objs s' = (weak_objs s)(this \<mapsto> Some wb)"
    and sps: "sp_blocks s' = sp_blocks s"
    by (simp_all add: s')
  have wh_b: "weak_holders s' wb = insert this (weak_holders s wb)"
    by (auto simp add: weak_holders_def wos)
  have wh_other: "weak_holders s' x \<subseteq> weak_holders s x" if "x \<noteq> wb" for x
    using that by (auto simp add: weak_holders_def wos split: if_splits)
  have 1: "alloc_ok s'"
    using A b(2) o1 unfolding alloc_ok_def s'
    by (auto split: if_splits)
  have 2: "weak_ok s'"
  proof (rule weak_okI)
    fix x
    show "weak_objs s' x \<noteq> Some None"
      using W by (simp add: weak_ok_def wos)
  next
    fix x y
    assume "weak_objs s' x = Some (Some y)"
    then show "weak_blocks s' y \<noteq> None"
      using W b(2) by (auto simp add: weak_ok_def wos wbs split: if_splits)
  next
    fix x wcb'
    assume l: "weak_blocks s' x = Some wcb'"
    show "int (card (weak_holders s' x)) \<le> weak_ref_count wcb' \<and>
          ctrl (weak_data wcb') \<noteq> None \<and>
          map_option managed (sp_blocks s' (the (ctrl (weak_data wcb')))) =
            Some (stored (weak_data wcb'))"
    proof (cases "x = wb")
      case True
      with l have "wcb' = wcb\<lparr>weak_ref_count := weak_ref_count wcb + 1\<rparr>" by (simp add: wbs)
      moreover have "card (insert this (weak_holders s wb)) \<le> Suc (card (weak_holders s wb))"
        using weak_holders_finite [OF A, of wb] by (simp add: card_insert_if)
      ultimately show ?thesis
        using weak_okD3 [OF W b(2)] True by (simp add: wh_b sps)
    next
      case False
      with l have old: "weak_blocks s x = Some wcb'" by (simp add: wbs)
      have "card (weak_holders s' x) \<le> card (weak_holders s x)"
        using wh_other [OF False] weak_holders_finite [OF A] by (rule card_mono [rotated])
      with weak_okD3 [OF W old] show ?thesis
        by (simp add: sps)
    qed
  qed
  from assms(1) _ _ _ 1 2 show ?thesis
    by (rule wf_weak_step) (simp_all add: s')
qed

lemma wf_WeakArc_dtor:
  assumes "wf s" and "WeakArc_dtor this s = Inr s'"
  shows "wf s'"
proof -
  from assms(1) have A: "alloc_ok s" and W: "weak_ok s"
    by (simp_all add: wf_def)
  from assms(2) obtain cbp where o: "weak_objs s this = Some cbp"
    by (cases "weak_objs s this") (simp_all add: WeakArc_dtor_def WeakArc_release_def)
  from weak_okD [OF W o] obtain wb wcb where b: "cbp = Some wb" "weak_blocks s wb = Some wcb"
    by blast
  from o b have h: "weak_objs s this = Some (Some wb)" by simp
  have mem: "this \<in> weak_holders s wb"
    using h by (simp add: weak_holders_def)
  have fin: "finite (weak_holders s wb)"
    by (rule weak_holders_finite [OF A])
  from mem fin have pos: "1 \<le> card (weak_holders s wb)"
    by (metis One_nat_def Suc_leI card_gt_0_iff empty_iff)
  have wos: "weak_objs s' = (weak_objs s)(this := None)"
    and sps: "sp_blocks s' = sp_blocks s" and abs: "arc_blocks s' = arc_blocks s"
    and aos: "arc_objs s' = arc_objs s" and nxt: "next_addr s' = next_addr s"
    and wbs: "weak_blocks s' =
       (if weak_ref_count wcb = 1 then (weak_blocks s)(wb := None)
        else (weak_blocks s)(wb \<mapsto> wcb\<lparr>weak_ref_count := weak_ref_count wcb - 1\<rparr>))"
    using WeakArc_dtor_char [OF h b(2)] assms(2) by (auto split: if_splits)
  have wh_b: "weak_holders s' wb = weak_holders s wb - {this}"
    by (auto simp add: weak_holders_def wos)
  have wh_other: "weak_holders s' x = weak_holders s x" if "x \<noteq> wb" for x
    using that h by (auto simp add: weak_holders_def wos)
  have 1: "alloc_ok s'"
    using A b(2) unfolding alloc_ok_def wos sps abs aos nxt wbs
    by (auto split: if_splits)
  have 2: "weak_ok s'"
  proof (rule weak_okI)
    fix x
    show "weak_objs s' x \<noteq> Some None"
      using W by (simp add: weak_ok_def wos)
  next
    fix x y
    assume a: "weak_objs s' x = Some (Some y)"
    then have ne: "x \<noteq> this" and old: "weak_objs s x = Some (Some y)"
      by (auto simp add: wos split: if_splits)
    from W old have live: "weak_blocks s y \<noteq> None"
      by (simp add: weak_ok_def)
    show "weak_blocks s' y \<noteq> None"
    proof (cases "weak_ref_count wcb = 1 \<and> y = wb")
      case True
      with weak_okD3(1) [OF W b(2)] pos have "card (weak_holders s wb) = 1" by simp
      with mem have "weak_holders s wb = {this}"
        by (metis card_1_singletonE singletonD)
      with old True ne show ?thesis
        by (auto simp add: weak_holders_def)
    next
      case False
      with live show ?thesis by (auto simp add: wbs)
    qed
  next
    fix x wcb'
    assume l: "weak_blocks s' x = Some wcb'"
    show "int (card (weak_holders s' x)) \<le> weak_ref_count wcb' \<and>
          ctrl (weak_data wcb') \<noteq> None \<and>
          map_option managed (sp_blocks s' (the (ctrl (weak_data wcb')))) =
            Some (stored (weak_data wcb'))"
    proof (cases "x = wb")
      case True
      with l have more: "weak_ref_count wcb \<noteq> 1"
        and "wcb' = wcb\<lparr>weak_ref_count := weak_ref_count wcb - 1\<rparr>"
        by (auto simp add: wbs split: if_splits)
      moreover have "card (weak_holders s wb - {this}) = card (weak_holders s wb) - 1"
        using mem fin by simp
      ultimately show ?thesis
        using weak_okD3 [OF W b(2)] True pos by (simp add: wh_b sps)
    next
      case False
      with l have old: "weak_blocks s x = Some wcb'"
        by (auto simp add: wbs split: if_splits)
      from weak_okD3 [OF W old] False show ?thesis
        by (simp add: wh_other sps)
    qed
  qed
  from assms(1) abs sps aos 1 2 show ?thesis
    by (rule wf_weak_step)
qed

lemma wf_WeakArc_operator_assign:
  assumes "wf s" and "WeakArc_operator_assign this other s = Inr (t, s')"
  shows "wf s'"
proof (cases "WeakArc_assign_if this other s")
  case (Inl e)
  with assms(2) show ?thesis by (simp add: WeakArc_operator_assign_def)
next
  case (Inr s1)
  with assms(1) have "wf s1" by (rule wf_WeakArc_assign_if)
  moreover from Inr assms(2) have "WeakArc_copy this s1 = Inr (t, s')"
    by (simp add: WeakArc_operator_assign_def)
  ultimately show ?thesis by (rule wf_WeakArc_copy)
qed

lemma wf_WeakArc_assign:
  assumes "wf s" and "WeakArc_assign this other s = Inr s'"
  shows "wf s'"
proof (cases "WeakArc_operator_assign this other s")
  case (Inl e)
  with assms(2) show ?thesis by (simp add: WeakArc_assign_def)
next
  case (Inr r)
  obtain t s1 where r: "r = (t, s1)" by (cases r)
  with Inr assms(1) have "wf s1" by (auto dest: wf_WeakArc_operator_assign)
  moreover from Inr r assms(2) have "WeakArc_dtor t s1 = Inr s'"
    by (simp add: WeakArc_assign_def)
  ultimately show ?thesis by (rule wf_WeakArc_dtor)
qed

lemma wf_WeakArc_upgrade:
  assumes "wf s" and "WeakArc_upgrade this s = Inr (h, s')"
  shows "wf s'"
proof -
  from assms(1) have A: "alloc_ok s" and W: "weak_ok s"
    by (simp_all add: wf_def)
  from assms(2) obtain cbp where o: "weak_objs s this = Some cbp"
    by (cases "weak_objs s this") (simp_all add: WeakArc_upgrade_def)
  from weak_okD [OF W o] obtain wb wcb where b: "cbp = Some wb" "weak_blocks s wb = Some wcb"
    by blast
  from weak_okD3(2,3) [OF W b(2)] obtain c blk where c: "ctrl (weak_data wcb) = Some c"
    "sp_blocks s c = Some blk"
    by (cases "ctrl (weak_data wcb)"; cases "sp_blocks s (the (ctrl (weak_data wcb)))") auto
  from A c(2) have "c < next_addr s"
    by (auto simp add: alloc_ok_def)
  from WeakArc_upgrade_char [OF _ b(2) c this, of this] o b(1) assms(2)
  have "s' = snd (Arc_ctor (if use_count blk = 0 then None else stored (weak_data wcb)) s)"
    by (metis Inr_inject snd_conv)
  with assms(1) show ?thesis
    by (simp add: wf_Arc_ctor)
qed

lemma wf_exec:
  assumes "wf s" and "exec x s = Inr s'"
  shows "wf s'"
proof (cases x)
  case (Construct p)
  with assms show ?thesis by (auto simp add: wf_Arc_ctor)
next
  case (Copy h)
  with assms show ?thesis
    by (cases "Arc_copy h s") (auto simp add: wf_Arc_copy)
next
  case (Assign h h')
  with assms show ?thesis by (auto simp add: wf_Arc_assign)
next
  case (Destroy h)
  with assms show ?thesis by (auto simp add: wf_Arc_dtor)
next
  case (Clone h)
  with assms show ?thesis
    by (cases "Arc_clone h s") (auto simp add: wf_Arc_clone)
next
  case (GetMut h)
  with assms show ?thesis
    by (cases "get_mut h s") (auto simp add: wf_get_mut)
next
  case (WeakConstruct h)
  with assms show ?thesis
    by (cases "WeakArc_ctor h s") (auto simp add: wf_WeakArc_ctor)
next
  case (WeakCopy w)
  with assms show ?thesis
    by (cases "WeakArc_copy w s") (auto simp add: wf_WeakArc_copy)
next
  case (WeakAssign w w')
  with assms show ?thesis by (auto simp add: wf_WeakArc_assign)
next
  case (WeakDestroy w)
  with assms show ?thesis by (auto simp add: wf_WeakArc_dtor)
next
  case (Upgrade w)
  with assms show ?thesis
    by (cases "WeakArc_upgrade w s") (auto simp add: wf_WeakArc_upgrade)
qed

lemma wf_run: "wf s \<Longrightarrow> run xs s = Inr s' \<Longrightarrow> wf s'"
proof (induction xs arbitrary: s)
  case Nil
  then show ?case by simp
next
  case (Cons x xs)
  then show ?case
    by (cases "exec x s") (auto dest: wf_exec)
qed

text \<open>
  Copies and destructions on the handles of one block, on well-formed states: both return;
  a copy adds a holder and raises the count by one; a destruction removes the holder, and
  it frees the block and runs the deleter exactly when the holder was the last one.
\<close>

lemma last_holder_iff:
  assumes "wf s" and "arc_objs s h = Some (Some b)" and "arc_blocks s b = Some cb"
  shows "holders s b = {h} \<longleftrightarrow> ref_count cb = 1"
proof -
  from assms(1) have A: "alloc_ok s" and C: "count_ok s"
    by (simp_all add: wf_def)
  have mem: "h \<in> holders s b"
    using assms(2) by (simp add: holders_def)
  have cnt: "ref_count cb = int (card (holders s b))"
    by (rule count_okD(3) [OF C assms(3)])
  show ?thesis
  proof
    assume "holders s b = {h}"
    with cnt show "ref_count cb = 1" by simp
  next
    assume "ref_count cb = 1"
    with cnt have "card (holders s b) = 1" by simp
    with mem show "holders s b = {h}"
      by (metis card_1_singletonE singletonD)
  qed
qed

lemma Arc_family_copy:
  assumes "wf s" and "arc_objs s h = Some (Some b)" and "arc_blocks s b = Some cb"
  shows "\<exists>h' s'. Arc_copy h s = Inr (h', s') \<and> wf s' \<and> h' \<notin> holders s b \<and>
           holders s' b = insert h' (holders s b) \<and>
           strong_count b s' = Some (int (card (holders s b)) + 1) \<and> deleted s' = deleted s"
proof -
  from assms(1) have A: "alloc_ok s" and C: "count_ok s"
    by (simp_all add: wf_def)
  note ch = Arc_copy_char [OF assms(2,3)]
  have fh: "arc_objs s (next_addr s) = None"
    using fresh_None [OF A] by simp
  let ?s' = "snd (projr (Arc_copy h s))"
  have "Arc_copy h s = Inr (next_addr s, ?s')"
    by (simp add: ch)
  moreover from this have "wf ?s'"
    by (rule wf_Arc_copy [OF assms(1)])
  moreover have "next_addr s \<notin> holders s b"
    using fh by (simp add: holders_def)
  moreover have "holders ?s' b = insert (next_addr s) (holders s b)"
    by (auto simp add: ch holders_def)
  moreover have "strong_count b ?s' = Some (int (card (holders s b)) + 1)"
    using count_okD(3) [OF C assms(3)] by (simp add: ch strong_count_def)
  moreover have "deleted ?s' = deleted s"
    by (simp add: ch)
  ultimately show ?thesis by blast
qed

lemma Arc_family_destroy:
  assumes "wf s" and "arc_objs s h = Some (Some b)" and "arc_blocks s b = Some cb"
  shows "\<exists>s'. Arc_dtor h s = Inr s' \<and> wf s' \<and> holders s' b = holders s b - {h} \<and>
           (if holders s b = {h}
            then arc_blocks s' b = None \<and>
                 deleted s' = deleted s @ (case stored (data cb) of None \<Rightarrow> [] | Some a \<Rightarrow> [a])
            else strong_count b s' = Some (int (card (holders s b)) - 1) \<and>
                 deleted s' = deleted s)"
proof -
  from assms(1) have C: "count_ok s"
    by (simp add: wf_def)
  note ch = Arc_dtor_char [OF assms]
  note last = last_holder_iff [OF assms]
  let ?s' = "projr (Arc_dtor h s)"
  have r: "Arc_dtor h s = Inr ?s'"
    by (simp add: ch)
  then have w: "wf ?s'"
    by (rule wf_Arc_dtor [OF assms(1)])
  have hs: "holders ?s' b = holders s b - {h}"
    by (auto simp add: ch holders_def)
  have "arc_blocks ?s' b = None \<and>
        deleted ?s' = deleted s @ (case stored (data cb) of None \<Rightarrow> [] | Some a \<Rightarrow> [a])"
    if "holders s b = {h}"
    using that last by (simp add: ch)
  moreover have "strong_count b ?s' = Some (int (card (holders s b)) - 1) \<and> deleted ?s' = deleted s"
    if "holders s b \<noteq> {h}"
    using that last count_okD(3) [OF C assms(3)] by (simp add: ch strong_count_def)
  ultimately show ?thesis
    using r w hs by (cases "holders s b = {h}") auto
qed


lemma WeakArc_copy_frame:
  "WeakArc_copy w s = Inr (w', s') \<Longrightarrow> arc_blocks s' = arc_blocks s"
  by (auto simp add: WeakArc_copy_def weak_fetch_add_def emit_def Let_def
        split: option.splits)

lemma WeakArc_assign_if_frame:
  "WeakArc_assign_if w w' s = Inr s' \<Longrightarrow> arc_blocks s' = arc_blocks s"
  by (auto simp add: WeakArc_assign_if_def weak_fetch_add_def emit_def
        split: option.splits if_splits)

lemma WeakArc_dtor_frame:
  "WeakArc_dtor w s = Inr s' \<Longrightarrow> arc_blocks s' = arc_blocks s"
  by (auto simp add: WeakArc_dtor_def WeakArc_release_def weak_fetch_sub_def emit_def Let_def
        split: option.splits if_splits)

lemma WeakArc_assign_frame:
  assumes "WeakArc_assign w w' s = Inr s'"
  shows "arc_blocks s' = arc_blocks s"
proof (cases "WeakArc_assign_if w w' s")
  case (Inl e)
  with assms show ?thesis
    by (simp add: WeakArc_assign_def WeakArc_operator_assign_def)
next
  case (Inr s1)
  show ?thesis
  proof (cases "WeakArc_copy w s1")
    case (Inl e)
    with Inr assms show ?thesis
      by (simp add: WeakArc_assign_def WeakArc_operator_assign_def)
  next
    case c: (Inr r)
    obtain t s2 where r: "r = (t, s2)" by (cases r)
    from Inr c r assms have "WeakArc_dtor t s2 = Inr s'"
      by (simp add: WeakArc_assign_def WeakArc_operator_assign_def)
    then have "arc_blocks s' = arc_blocks s2" by (rule WeakArc_dtor_frame)
    also from c r have "arc_blocks s2 = arc_blocks s1" by (auto dest: WeakArc_copy_frame)
    also from Inr have "arc_blocks s1 = arc_blocks s" by (rule WeakArc_assign_if_frame)
    finally show ?thesis .
  qed
qed

lemma WeakArc_upgrade_frame:
  assumes "wf s" and "WeakArc_upgrade w s = Inr (h, s')" and "arc_blocks s b = Some cb"
  shows "arc_blocks s' b = Some cb"
proof -
  from assms(1) have A: "alloc_ok s" and W: "weak_ok s"
    by (simp_all add: wf_def)
  from assms(2) obtain cbp where o: "weak_objs s w = Some cbp"
    by (cases "weak_objs s w") (simp_all add: WeakArc_upgrade_def)
  from weak_okD [OF W o] obtain wb wcb where b: "cbp = Some wb" "weak_blocks s wb = Some wcb"
    by blast
  from weak_okD3(2,3) [OF W b(2)] obtain c blk where c: "ctrl (weak_data wcb) = Some c"
    "sp_blocks s c = Some blk"
    by (cases "ctrl (weak_data wcb)"; cases "sp_blocks s (the (ctrl (weak_data wcb)))") auto
  from A c(2) have "c < next_addr s"
    by (auto simp add: alloc_ok_def)
  from WeakArc_upgrade_char [OF _ b(2) c this, of w] o b(1) assms(2)
  have s': "s' = snd (Arc_ctor (if use_count blk = 0 then None else stored (weak_data wcb)) s)"
    by (metis Inr_inject snd_conv)
  from A assms(3) have "b \<noteq> Suc (next_addr s)"
    by (auto simp add: alloc_ok_def)
  with assms(3) show ?thesis
    by (simp add: s' Arc_ctor_char)
qed

section \<open>Self-assignment\<close>

text \<open>
  C5. On a well-formed state, assigning an \<open>Arc\<close> to itself (\<open>this == &other\<close>) is detected
  before any lock is taken: the \<open>if\<close> statement is skipped, so that the call of the
  operator is nothing but the copy construction of its by-value result. Once the statement
  is over and that temporary is destroyed, the \<open>Arc\<close> objects with their control-block
  pointers, the control blocks with their counts, locks and \<open>data\<close>, the library blocks and
  the deleted payloads are what they were before, and \<open>get()\<close> returns what it returned.
  The trace has grown by the increment and the decrement of the temporary and by nothing
  else: there is no lock operation in it.
\<close>

theorem Arc_self_assign_unchanged:
  assumes "wf s" and "arc_objs s this = Some (Some b)"
  shows "Arc_operator_assign this this s = Arc_copy this s \<and>
         (\<exists>s'. Arc_assign this this s = Inr s' \<and>
               arc_objs s' = arc_objs s \<and> arc_blocks s' = arc_blocks s \<and>
               sp_blocks s' = sp_blocks s \<and> weak_objs s' = weak_objs s \<and>
               weak_blocks s' = weak_blocks s \<and> deleted s' = deleted s \<and>
               Arc_get this s' = Arc_get this s \<and>
               trace s' = trace s @ [FetchAdd b Relaxed, FetchSub b Release])"
proof -
  from assms(1) have A: "alloc_ok s" by (simp add: wf_def)
  from wf_handle [OF assms] obtain cb where cb: "arc_blocks s b = Some cb" "1 \<le> ref_count cb"
    by (metis option.inject)
  let ?n = "next_addr s"
  let ?s1 = "s\<lparr>arc_blocks := (arc_blocks s)(b \<mapsto> cb\<lparr>ref_count := ref_count cb + 1\<rparr>),
            arc_objs := (arc_objs s)(?n \<mapsto> Some b),
            trace := trace s @ [FetchAdd b Relaxed],
            next_addr := Suc ?n\<rparr>"
  have fh: "arc_objs s ?n = None"
    using fresh_None [OF A] by simp
  have op: "Arc_operator_assign this this s = Arc_copy this s"
    by (simp add: Arc_operator_assign_def Arc_assign_if_def)
  have copy: "Arc_copy this s = Inr (?n, ?s1)"
    by (rule Arc_copy_char [OF assms(2) cb(1)])
  have w1: "wf ?s1"
    using assms(1) copy by (rule wf_Arc_copy)
  have dt: "Arc_dtor ?n ?s1 =
      Inr (?s1\<lparr>arc_blocks := (arc_blocks ?s1)(b \<mapsto>
                   cb\<lparr>ref_count := ref_count cb + 1, ref_count := ref_count cb + 1 - 1\<rparr>),
               arc_objs := (arc_objs ?s1)(?n := None),
               trace := trace ?s1 @ [FetchSub b Release]\<rparr>)"
    using Arc_dtor_char [OF w1, of ?n b "cb\<lparr>ref_count := ref_count cb + 1\<rparr>"] cb(2)
    by simp
  let ?s' = "projr (Arc_dtor ?n ?s1)"
  have stmt: "Arc_assign this this s = Inr ?s'"
    by (simp add: Arc_assign_def op copy dt)
  have objs: "arc_objs ?s' = arc_objs s"
    using fh by (auto simp add: dt intro!: ext)
  have blocks: "arc_blocks ?s' = arc_blocks s"
    using cb(1) by (auto simp add: dt intro!: ext)
  have rest: "sp_blocks ?s' = sp_blocks s" "weak_objs ?s' = weak_objs s"
    "weak_blocks ?s' = weak_blocks s" "deleted ?s' = deleted s"
    "trace ?s' = trace s @ [FetchAdd b Relaxed, FetchSub b Release]"
    by (simp_all add: dt)
  have "Arc_get this ?s' = Arc_get this s"
    unfolding Arc_get_def objs blocks ..
  with op stmt objs blocks rest show ?thesis
    by (intro conjI exI [of _ ?s']) simp_all
qed

theorem Arc_self_assign_unchanged_witness:
  "\<exists>s'. Arc_assign 2 2 (snd (Arc_ctor (Some 7) init_state)) = Inr s' \<and>
         arc_objs s' 2 = Some (Some 1) \<and> strong_count 1 s' = Some 1 \<and>
         Arc_get 2 s' = Inr (Some 7) \<and> deleted s' = [] \<and>
         trace s' = [FetchAdd 1 Relaxed, FetchSub 1 Release]"
proof -
  let ?s = "snd (Arc_ctor (Some 7) init_state)"
  have w: "wf ?s"
    by (rule wf_Arc_ctor [OF wf_init])
  have h: "arc_objs ?s 2 = Some (Some 1)"
    and b: "strong_count 1 ?s = Some 1" and g: "Arc_get 2 ?s = Inr (Some 7)"
    and d: "deleted ?s = []" and t: "trace ?s = []"
    by (simp_all add: Arc_ctor_char init_state_def strong_count_def Arc_get_def)
  from Arc_self_assign_unchanged [OF w h] h b g d t show ?thesis
    by (auto simp add: strong_count_def)
qed

text \<open>
  C10. On a well-formed state, assigning a \<open>WeakArc\<close> to itself is detected by the same
  test: the \<open>if\<close> statement is skipped and the call of the operator is only the copy
  construction of its by-value result. Once the statement is over and that temporary is
  destroyed, the \<open>WeakArc\<close> objects with their control-block pointers and the
  \<open>WeakArcControlBlock\<close>s with their counts are what they were before; the trace has grown
  by the increment and the decrement of the temporary.
\<close>

theorem WeakArc_self_assign_unchanged:
  assumes "wf s" and "weak_objs s this = Some (Some wb)"
  shows "WeakArc_operator_assign this this s = WeakArc_copy this s \<and>
         (\<exists>s'. WeakArc_assign this this s = Inr s' \<and>
               weak_objs s' = weak_objs s \<and> weak_blocks s' = weak_blocks s \<and>
               arc_objs s' = arc_objs s \<and> arc_blocks s' = arc_blocks s \<and>
               sp_blocks s' = sp_blocks s \<and> deleted s' = deleted s \<and>
               trace s' = trace s @ [WeakFetchAdd wb Relaxed, WeakFetchSub wb Release])"
proof -
  from assms(1) have A: "alloc_ok s" and W: "weak_ok s" by (simp_all add: wf_def)
  from weak_okD [OF W assms(2)] obtain wcb where wcb: "weak_blocks s wb = Some wcb"
    by auto
  have "this \<in> weak_holders s wb"
    using assms(2) by (simp add: weak_holders_def)
  with weak_holders_finite [OF A, of wb] have "1 \<le> card (weak_holders s wb)"
    by (metis One_nat_def Suc_leI card_gt_0_iff empty_iff)
  with weak_okD3(1) [OF W wcb] have pos: "1 \<le> weak_ref_count wcb"
    by simp
  let ?n = "next_addr s"
  let ?s1 = "s\<lparr>weak_blocks := (weak_blocks s)(wb \<mapsto> wcb\<lparr>weak_ref_count := weak_ref_count wcb + 1\<rparr>),
            weak_objs := (weak_objs s)(?n \<mapsto> Some wb),
            trace := trace s @ [WeakFetchAdd wb Relaxed],
            next_addr := Suc ?n\<rparr>"
  have fh: "weak_objs s ?n = None"
    using fresh_None [OF A] by simp
  have op: "WeakArc_operator_assign this this s = WeakArc_copy this s"
    by (simp add: WeakArc_operator_assign_def WeakArc_assign_if_def)
  have copy: "WeakArc_copy this s = Inr (?n, ?s1)"
    by (rule WeakArc_copy_char [OF assms(2) wcb])
  note dt = WeakArc_dtor_char [of ?s1 ?n wb "wcb\<lparr>weak_ref_count := weak_ref_count wcb + 1\<rparr>"]
  let ?s' = "projr (WeakArc_dtor ?n ?s1)"
  have stmt: "WeakArc_assign this this s = Inr ?s'"
    using pos by (simp add: WeakArc_assign_def op copy dt)
  have objs: "weak_objs ?s' = weak_objs s"
    using fh pos by (auto simp add: dt intro!: ext)
  have blocks: "weak_blocks ?s' = weak_blocks s"
    using wcb pos by (auto simp add: dt intro!: ext)
  have rest: "arc_objs ?s' = arc_objs s" "arc_blocks ?s' = arc_blocks s"
    "sp_blocks ?s' = sp_blocks s" "deleted ?s' = deleted s"
    "trace ?s' = trace s @ [WeakFetchAdd wb Relaxed, WeakFetchSub wb Release]"
    using pos by (simp_all add: dt)
  from op stmt objs blocks rest show ?thesis
    by (intro conjI exI [of _ ?s']) simp_all
qed

theorem WeakArc_self_assign_unchanged_witness:
  "\<exists>s'. WeakArc_assign 4 4 (projr (run [Construct (Some 7), WeakConstruct 2] init_state)) = Inr s' \<and>
         weak_objs s' 4 = Some (Some 3) \<and> weak_count 3 s' = Some 1 \<and>
         strong_count 1 s' = Some 1 \<and>
         trace s' = [WeakFetchAdd 3 Relaxed, WeakFetchSub 3 Release]"
proof -
  let ?r = "run [Construct (Some 7), WeakConstruct 2] init_state"
  let ?s = "projr ?r"
  have r: "?r = Inr ?s"
    by (simp add: eval_defs)
  have w: "wf ?s"
    using wf_run [OF wf_init r] .
  have h: "weak_objs ?s 4 = Some (Some 3)" and c: "weak_count 3 ?s = Some 1"
    and b: "strong_count 1 ?s = Some 1" and t: "trace ?s = []"
    by (simp_all add: eval_defs)
  from WeakArc_self_assign_unchanged [OF w h] h c b t show ?thesis
    by (auto simp add: strong_count_def weak_count_def)
qed

section \<open>Assignment between distinct handles\<close>

text \<open>
  C6. The claim is that assigning one \<open>WeakArc\<close> to another first gives up the block held
  so far (decrementing its count and freeing it at 0), as the comment above
  \<open>WeakArc::operator=\<close> says and as \<open>Arc::operator=\<close> does through \<open>release()\<close>. The code
  does not: with two \<open>WeakArc\<close> objects 4 and 6 built from the same \<open>Arc\<close>, each on its
  own block (3 and 5), the assignment \<open>4 = 6\<close> leaves block 3 allocated with count 1
  although no handle points to it any more. All it does is on block 5: the increment of the
  \<open>if\<close> statement, then the increment and the decrement of the temporary returned by
  value.
\<close>

theorem WeakArc_assign_keeps_old_block:
  "map_sum id (weak_count 3)
     (run [Construct (Some 7), WeakConstruct 2, WeakConstruct 2, WeakAssign 4 6] init_state)
     = Inr (Some 1) \<and>
   map_sum id (weak_count 5)
     (run [Construct (Some 7), WeakConstruct 2, WeakConstruct 2, WeakAssign 4 6] init_state)
     = Inr (Some 2) \<and>
   map_sum id (\<lambda>s. (weak_objs s 4, weak_objs s 6, trace s))
     (run [Construct (Some 7), WeakConstruct 2, WeakConstruct 2, WeakAssign 4 6] init_state)
     = Inr (Some (Some 5), Some (Some 5),
            [WeakFetchAdd 5 Relaxed, WeakFetchAdd 5 Relaxed, WeakFetchSub 5 Release])"
  by (simp add: eval_defs)

text \<open>
  C1. The claim covers every sequence of constructions, copies, assignments and
  destructions on handles sharing one block. An assignment between two different \<open>Arc\<close>
  objects of the same block calls \<open>std::lock\<close> on one and the same mutex twice, which can
  never be granted (\<open>Arc_assign_one_block\<close> above, for any state): the call does not
  return, so the run never gets to destroy its handles and the payload's deleter never
  runs. Sequences of constructions, copies and destructions alone do behave as claimed
  (\<open>Arc_family_copy\<close>, \<open>Arc_family_destroy\<close>).
\<close>

theorem Arc_assign_same_block_blocks:
  "run [Construct (Some 7), Copy 2, Assign 2 3, Destroy 2, Destroy 3] init_state = Inl Blocked \<and>
   map_sum id (\<lambda>s. (arc_objs s 2, arc_objs s 3, strong_count 1 s, lock_state 1 s, deleted s))
     (run [Construct (Some 7), Copy 2] init_state)
     = Inr (Some (Some 1), Some (Some 1), Some 2, Some Unlocked, [])"
  by (simp add: eval_defs)

section \<open>Mutable access\<close>

text \<open>
  C4. The claim is that the exclusive lock taken by \<open>get_mut\<close> is held while the caller
  uses the pointer it gets. The \<open>lock_guard\<close> is a local variable of \<open>get_mut\<close>: the lock is
  released when the function returns, so the caller receives the pointer with the lock
  already free again (the trace of the call is the acquisition followed by the release).
\<close>

theorem get_mut_returns_unlocked:
  "map_sum id (map_prod id (\<lambda>s. (lock_state 1 s, trace s)))
     (get_mut 2 (snd (Arc_ctor (Some 7) init_state)))
     = Inr (Some 7, Some Unlocked, [Lock 1, Unlock 1])"
  by (simp add: init_state_def prim_defs op_defs obs_defs Let_def)

section \<open>Release\<close>

text \<open>
  C2. \<open>Arc::release\<close> on a handle that points to a live block decrements the count with
  \<open>memory_order_release\<close>. When the value it read was not 1 that is all it does: nothing is
  locked, freed or deleted. When it was 1, the call issues an acquire fence and takes the
  block's lock exclusively (it does not return while the lock is held by somebody); it then
  loads the count again, and on reading 0 resets \<open>data\<close>, which runs the deleter on the
  payload, and deletes the control block. The last conjunct is the re-check on its own: when
  the count read under the lock is not 0, the lock is released again and nothing else has
  happened. (The guard's unlock comes after the block has been freed, as the trace shows.)
\<close>

theorem Arc_release_protocol:
  assumes "arc_objs s this = Some (Some b)" and "arc_blocks s b = Some cb"
  shows "(ref_count cb \<noteq> 1 \<longrightarrow>
            (\<exists>s'. Arc_release this s = Inr s' \<and>
                  trace s' = trace s @ [FetchSub b Release] \<and>
                  strong_count b s' = Some (ref_count cb - 1) \<and>
                  lock_state b s' = Some (mutex cb) \<and>
                  dom (arc_blocks s') = dom (arc_blocks s) \<and>
                  sp_blocks s' = sp_blocks s \<and> deleted s' = deleted s)) \<and>
         (ref_count cb = 1 \<and> mutex cb \<noteq> Unlocked \<longrightarrow> Arc_release this s = Inl Blocked) \<and>
         (ref_count cb = 1 \<and> mutex cb = Unlocked \<and> data cb = \<lparr>ctrl = Some c, stored = p\<rparr> \<and>
          sp_blocks s c = Some \<lparr>use_count = 1, managed = p\<rparr> \<longrightarrow>
            (\<exists>s'. Arc_release this s = Inr s' \<and>
                  trace s' = trace s @ [FetchSub b Release, Fence Acquire, Lock b, Load b Relaxed] @
                     (case p of None \<Rightarrow> [] | Some a \<Rightarrow> [Delete a]) @ [FreeBlock b, Unlock b] \<and>
                  deleted s' = deleted s @ (case p of None \<Rightarrow> [] | Some a \<Rightarrow> [a]) \<and>
                  arc_blocks s' = (arc_blocks s)(b := None) \<and>
                  map_option use_count (sp_blocks s' c) = Some 0)) \<and>
         (ref_count cb \<noteq> 0 \<and> mutex cb = Unlocked \<longrightarrow>
            release_last b s =
              Inr (s\<lparr>trace := trace s @ [Fence Acquire, Lock b, Load b Relaxed, Unlock b]\<rparr>))"
proof (intro conjI impI)
  assume "ref_count cb \<noteq> 1"
  with assms show "\<exists>s'. Arc_release this s = Inr s' \<and>
                  trace s' = trace s @ [FetchSub b Release] \<and>
                  strong_count b s' = Some (ref_count cb - 1) \<and>
                  lock_state b s' = Some (mutex cb) \<and>
                  dom (arc_blocks s') = dom (arc_blocks s) \<and>
                  sp_blocks s' = sp_blocks s \<and> deleted s' = deleted s"
    by (auto simp add: Arc_release_decrement_only strong_count_def lock_state_def)
next
  assume "ref_count cb = 1 \<and> mutex cb \<noteq> Unlocked"
  with assms show "Arc_release this s = Inl Blocked"
    by (simp add: Arc_release_blocked)
next
  assume "ref_count cb = 1 \<and> mutex cb = Unlocked \<and> data cb = \<lparr>ctrl = Some c, stored = p\<rparr> \<and>
          sp_blocks s c = Some \<lparr>use_count = 1, managed = p\<rparr>"
  with assms show "\<exists>s'. Arc_release this s = Inr s' \<and>
                  trace s' = trace s @ [FetchSub b Release, Fence Acquire, Lock b, Load b Relaxed] @
                     (case p of None \<Rightarrow> [] | Some a \<Rightarrow> [Delete a]) @ [FreeBlock b, Unlock b] \<and>
                  deleted s' = deleted s @ (case p of None \<Rightarrow> [] | Some a \<Rightarrow> [a]) \<and>
                  arc_blocks s' = (arc_blocks s)(b := None) \<and>
                  map_option use_count (sp_blocks s' c) = Some 0"
    by (simp add: Arc_release_last)
next
  assume "ref_count cb \<noteq> 0 \<and> mutex cb = Unlocked"
  with assms show "release_last b s =
              Inr (s\<lparr>trace := trace s @ [Fence Acquire, Lock b, Load b Relaxed, Unlock b]\<rparr>)"
    by (simp add: release_last_recheck_fails)
qed

theorem Arc_release_protocol_witness:
  "(\<exists>s'. Arc_release 2 (snd (Arc_ctor (Some 7) init_state)) = Inr s' \<and>
         trace s' = [FetchSub 1 Release, Fence Acquire, Lock 1, Load 1 Relaxed, Delete 7,
                     FreeBlock 1, Unlock 1] \<and>
         deleted s' = [7] \<and> arc_blocks s' 1 = None) \<and>
   (\<exists>s'. Arc_release 2 (snd (projr (Arc_copy 2 (snd (Arc_ctor (Some 7) init_state))))) = Inr s' \<and>
         trace s' = [FetchAdd 1 Relaxed, FetchSub 1 Release] \<and>
         strong_count 1 s' = Some 1 \<and> deleted s' = []) \<and>
   release_last 1 (snd (Arc_ctor (Some 7) init_state)) =
     Inr ((snd (Arc_ctor (Some 7) init_state))
            \<lparr>trace := [Fence Acquire, Lock 1, Load 1 Relaxed, Unlock 1]\<rparr>)"
proof -
  let ?s = "snd (Arc_ctor (Some 7) init_state)"
  let ?cb = "\<lparr>ref_count = 1, mutex = Unlocked, data = \<lparr>ctrl = Some 0, stored = Some 7\<rparr>\<rparr>"
  let ?t = "snd (projr (Arc_copy 2 ?s))"
  have h: "arc_objs ?s 2 = Some (Some 1)" and b: "arc_blocks ?s 1 = Some ?cb"
    and c: "sp_blocks ?s 0 = Some \<lparr>use_count = 1, managed = Some 7\<rparr>"
    and t: "trace ?s = []" and d: "deleted ?s = []" and n: "next_addr ?s = 3"
    by (simp_all add: Arc_ctor_char init_state_def)
  have copy: "Arc_copy 2 ?s = Inr (3,
      ?s\<lparr>arc_blocks := (arc_blocks ?s)(1 \<mapsto> ?cb\<lparr>ref_count := ref_count ?cb + 1\<rparr>),
         arc_objs := (arc_objs ?s)(next_addr ?s \<mapsto> Some 1),
         trace := trace ?s @ [FetchAdd 1 Relaxed],
         next_addr := Suc (next_addr ?s)\<rparr>)"
    using Arc_copy_char [OF h b] n by simp
  have h': "arc_objs ?t 2 = Some (Some 1)"
    and b': "arc_blocks ?t 1 = Some (?cb\<lparr>ref_count := 2\<rparr>)"
    and t': "trace ?t = [FetchAdd 1 Relaxed]" and d': "deleted ?t = []"
    by (simp_all add: copy h n t d)
  from Arc_release_protocol [OF h b, of 0 "Some 7"] c t d
  have 1: "\<exists>s'. Arc_release 2 ?s = Inr s' \<and>
         trace s' = [FetchSub 1 Release, Fence Acquire, Lock 1, Load 1 Relaxed, Delete 7,
                     FreeBlock 1, Unlock 1] \<and>
         deleted s' = [7] \<and> arc_blocks s' 1 = None"
    and 3: "release_last 1 ?s = Inr (?s\<lparr>trace := [Fence Acquire, Lock 1, Load 1 Relaxed, Unlock 1]\<rparr>)"
    by auto
  from Arc_release_protocol [OF h' b', of 0 "Some 7"] t' d'
  have 2: "\<exists>s'. Arc_release 2 ?t = Inr s' \<and>
         trace s' = [FetchAdd 1 Relaxed, FetchSub 1 Release] \<and>
         strong_count 1 s' = Some 1 \<and> deleted s' = []"
    by auto
  from 1 2 3 show ?thesis by blast
qed

section \<open>Clone\<close>

text \<open>
  C7. On a handle that points to a live block whose lock is not held exclusively,
  \<open>clone()\<close> returns the same handle as the copy constructor and leaves the same state but
  for the trace: the new handle points to the same block, the count has gone up by one, the
  lock is in the state it was in, and the one difference is that the increment stands
  between the acquisition and the release of the shared lock. While the lock is held
  exclusively \<open>clone()\<close> waits, where the copy constructor does not.
\<close>

theorem Arc_clone_is_copy_under_shared_lock:
  assumes "arc_objs s this = Some (Some b)" and "arc_blocks s b = Some cb"
  shows "(mutex cb \<noteq> Writer \<longrightarrow>
           (\<exists>h s1. Arc_copy this s = Inr (h, s1) \<and>
                   Arc_clone this s =
                     Inr (h, s1\<lparr>trace := trace s @ [LockShared b, FetchAdd b Relaxed, UnlockShared b]\<rparr>) \<and>
                   trace s1 = trace s @ [FetchAdd b Relaxed] \<and>
                   arc_objs s1 h = Some (Some b) \<and>
                   strong_count b s1 = Some (ref_count cb + 1) \<and>
                   lock_state b s1 = Some (mutex cb))) \<and>
         (mutex cb = Writer \<longrightarrow>
           Arc_clone this s = Inl Blocked \<and> (\<exists>h s1. Arc_copy this s = Inr (h, s1)))"
proof (intro conjI impI)
  assume "mutex cb \<noteq> Writer"
  then show "\<exists>h s1. Arc_copy this s = Inr (h, s1) \<and>
                   Arc_clone this s =
                     Inr (h, s1\<lparr>trace := trace s @ [LockShared b, FetchAdd b Relaxed, UnlockShared b]\<rparr>) \<and>
                   trace s1 = trace s @ [FetchAdd b Relaxed] \<and>
                   arc_objs s1 h = Some (Some b) \<and>
                   strong_count b s1 = Some (ref_count cb + 1) \<and>
                   lock_state b s1 = Some (mutex cb)"
    using assms by (simp add: Arc_copy_char Arc_clone_char strong_count_def lock_state_def)
next
  assume "mutex cb = Writer"
  then show "Arc_clone this s = Inl Blocked"
    using assms by (simp add: Arc_clone_def Arc_mutex_def lock_shared_def)
next
  show "\<exists>h s1. Arc_copy this s = Inr (h, s1)"
    using assms by (simp add: Arc_copy_char)
qed

theorem Arc_clone_is_copy_witness:
  "arc_objs (snd (Arc_ctor (Some 7) init_state)) 2 = Some (Some 1) \<and>
   arc_blocks (snd (Arc_ctor (Some 7) init_state)) 1 =
     Some \<lparr>ref_count = 1, mutex = Unlocked, data = \<lparr>ctrl = Some 0, stored = Some 7\<rparr>\<rparr> \<and>
   (\<exists>h s1. Arc_copy 2 (snd (Arc_ctor (Some 7) init_state)) = Inr (h, s1) \<and>
           Arc_clone 2 (snd (Arc_ctor (Some 7) init_state)) =
             Inr (h, s1\<lparr>trace := [LockShared 1, FetchAdd 1 Relaxed, UnlockShared 1]\<rparr>) \<and>
           arc_objs s1 h = Some (Some 1) \<and> strong_count 1 s1 = Some 2)"
proof -
  let ?s = "snd (Arc_ctor (Some 7) init_state)"
  let ?cb = "\<lparr>ref_count = 1, mutex = Unlocked, data = \<lparr>ctrl = Some 0, stored = Some 7\<rparr>\<rparr>"
  have h: "arc_objs ?s 2 = Some (Some 1)"
    by (simp add: Arc_ctor_char init_state_def)
  have b: "arc_blocks ?s 1 = Some ?cb"
    by (simp add: Arc_ctor_char init_state_def)
  have t: "trace ?s = []"
    by (simp add: Arc_ctor_char init_state_def)
  from Arc_clone_is_copy_under_shared_lock [OF h b] t h b show ?thesis
    by auto
qed

section \<open>The null \<open>Arc\<close>\<close>

text \<open>
  C9, as stated, fails: the claim is that on an \<open>Arc\<close> built from \<open>nullptr\<close> every
  operation other than \<open>get()\<close> is a no-op or fails. \<open>Arc(nullptr)\<close> allocates a control
  block like any other, and copying the handle succeeds and takes the count of that block
  from 1 to 2.
\<close>

theorem null_Arc_copy_counterexample:
  "Arc_get 2 (snd (Arc_ctor None init_state)) = Inr None \<and>
   strong_count 1 (snd (Arc_ctor None init_state)) = Some 1 \<and>
   map_sum id (strong_count 1 \<circ> snd) (Arc_copy 2 (snd (Arc_ctor None init_state))) = Inr (Some 2)"
  by (simp add: init_state_def prim_defs op_defs obs_defs Let_def)

text \<open>
  C9, amended. For an \<open>Arc\<close> built from \<open>nullptr\<close>, in any state, \<open>get()\<close> yields null.
  Self-assignment and \<open>get_mut\<close> leave its control block as it was (count 1, lock free),
  and \<open>get_mut\<close> returns null. The copy constructor, \<open>clone()\<close> and the destructor are
  neither no-ops nor failures: the handle owns a control block with count 1, the copy
  constructor and \<open>clone()\<close> take that count to 2, and destroying the handle frees the
  block while the deleter, applied to the null pointer, deletes nothing. Nothing is said
  here of an assignment between the null \<open>Arc\<close> and another \<open>Arc\<close>.
\<close>

theorem null_Arc_operations:
  "Arc_get (fst (Arc_ctor None s)) (snd (Arc_ctor None s)) = Inr None \<and>
   strong_count (Suc (next_addr s)) (snd (Arc_ctor None s)) = Some 1 \<and>
   map_sum id (\<lambda>s'. (strong_count (Suc (next_addr s)) s', lock_state (Suc (next_addr s)) s',
                      Arc_get (fst (Arc_ctor None s)) s', deleted s'))
     (Arc_assign (fst (Arc_ctor None s)) (fst (Arc_ctor None s)) (snd (Arc_ctor None s)))
     = Inr (Some 1, Some Unlocked, Inr None, deleted s) \<and>
   map_sum id (map_prod id (\<lambda>s'. (strong_count (Suc (next_addr s)) s',
                                    lock_state (Suc (next_addr s)) s', deleted s')))
     (get_mut (fst (Arc_ctor None s)) (snd (Arc_ctor None s)))
     = Inr (None, Some 1, Some Unlocked, deleted s) \<and>
   map_sum id (strong_count (Suc (next_addr s)) \<circ> snd)
     (Arc_copy (fst (Arc_ctor None s)) (snd (Arc_ctor None s))) = Inr (Some 2) \<and>
   map_sum id (strong_count (Suc (next_addr s)) \<circ> snd)
     (Arc_clone (fst (Arc_ctor None s)) (snd (Arc_ctor None s))) = Inr (Some 2) \<and>
   map_sum id (strong_count (Suc (next_addr s)))
     (Arc_dtor (fst (Arc_ctor None s)) (snd (Arc_ctor None s))) = Inr None \<and>
   map_sum id deleted
     (Arc_dtor (fst (Arc_ctor None s)) (snd (Arc_ctor None s))) = Inr (deleted s)"
  by (simp add: prim_defs op_defs obs_defs Let_def)

section \<open>Weak references\<close>

text \<open>
  C8. On a well-formed state, building a \<open>WeakArc\<close> from an \<open>Arc\<close> returns a handle to
  a newly allocated \<open>WeakArcControlBlock\<close> with count 1 whose \<open>weak_ptr\<close> is a copy of the
  \<open>data\<close> of the \<open>Arc\<close>'s block (same library block, same stored pointer), and changes
  nothing else: the \<open>ArcControlBlock\<close>s with their counts, locks and \<open>data\<close>, the \<open>Arc\<close>
  objects, the library blocks, the deleted payloads and the trace are as before. No other
  \<open>WeakArc\<close> member function changes an existing \<open>ArcControlBlock\<close> either: copy,
  assignment and destruction leave all of them as they are, and \<open>upgrade()\<close> only adds a
  new one.
\<close>

theorem WeakArc_never_touches_strong_count:
  assumes "wf s"
  shows "(arc_objs s arc = Some (Some b) \<and> arc_blocks s b = Some cb \<longrightarrow>
            (\<exists>w wb s'. WeakArc_ctor arc s = Inr (w, s') \<and>
               weak_objs s' w = Some (Some wb) \<and> weak_blocks s wb = None \<and>
               weak_blocks s' wb = Some \<lparr>weak_ref_count = 1, weak_data = data cb\<rparr> \<and>
               arc_blocks s' = arc_blocks s \<and> arc_objs s' = arc_objs s \<and>
               sp_blocks s' = sp_blocks s \<and> deleted s' = deleted s \<and> trace s' = trace s)) \<and>
         (WeakArc_copy w1 s = Inr (w2, s1) \<longrightarrow> arc_blocks s1 = arc_blocks s) \<and>
         (WeakArc_assign w3 w4 s = Inr s2 \<longrightarrow> arc_blocks s2 = arc_blocks s) \<and>
         (WeakArc_dtor w5 s = Inr s3 \<longrightarrow> arc_blocks s3 = arc_blocks s) \<and>
         (WeakArc_upgrade w6 s = Inr (h, s4) \<and> arc_blocks s b' = Some cb' \<longrightarrow>
            arc_blocks s4 b' = Some cb')"
proof (intro conjI impI)
  assume "arc_objs s arc = Some (Some b) \<and> arc_blocks s b = Some cb"
  then have a: "arc_objs s arc = Some (Some b)" "arc_blocks s b = Some cb" by simp_all
  from assms have "weak_blocks s (next_addr s) = None"
    using fresh_None(2) [of s "next_addr s"] by (simp add: wf_def)
  then show "\<exists>w wb s'. WeakArc_ctor arc s = Inr (w, s') \<and>
               weak_objs s' w = Some (Some wb) \<and> weak_blocks s wb = None \<and>
               weak_blocks s' wb = Some \<lparr>weak_ref_count = 1, weak_data = data cb\<rparr> \<and>
               arc_blocks s' = arc_blocks s \<and> arc_objs s' = arc_objs s \<and>
               sp_blocks s' = sp_blocks s \<and> deleted s' = deleted s \<and> trace s' = trace s"
    by (simp add: WeakArc_ctor_char [OF a])
next
  assume "WeakArc_copy w1 s = Inr (w2, s1)"
  then show "arc_blocks s1 = arc_blocks s" by (rule WeakArc_copy_frame)
next
  assume "WeakArc_assign w3 w4 s = Inr s2"
  then show "arc_blocks s2 = arc_blocks s" by (rule WeakArc_assign_frame)
next
  assume "WeakArc_dtor w5 s = Inr s3"
  then show "arc_blocks s3 = arc_blocks s" by (rule WeakArc_dtor_frame)
next
  assume "WeakArc_upgrade w6 s = Inr (h, s4) \<and> arc_blocks s b' = Some cb'"
  then show "arc_blocks s4 b' = Some cb'"
    using WeakArc_upgrade_frame [OF assms] by blast
qed

theorem WeakArc_never_touches_strong_count_witness:
  "wf (projr (run [Construct (Some 7), WeakConstruct 2, WeakConstruct 2] init_state)) \<and>
   strong_count 1 (projr (run [Construct (Some 7), WeakConstruct 2, WeakConstruct 2] init_state))
     = Some 1 \<and>
   (\<exists>w wb s'. WeakArc_ctor 2
                 (projr (run [Construct (Some 7), WeakConstruct 2, WeakConstruct 2] init_state))
                 = Inr (w, s') \<and>
               weak_objs s' w = Some (Some wb) \<and> weak_count wb s' = Some 1 \<and>
               strong_count 1 s' = Some 1) \<and>
   strong_count 1 (snd (projr (WeakArc_copy 4
     (projr (run [Construct (Some 7), WeakConstruct 2, WeakConstruct 2] init_state))))) = Some 1 \<and>
   strong_count 1 (projr (WeakArc_assign 4 6
     (projr (run [Construct (Some 7), WeakConstruct 2, WeakConstruct 2] init_state)))) = Some 1 \<and>
   strong_count 1 (projr (WeakArc_dtor 4
     (projr (run [Construct (Some 7), WeakConstruct 2, WeakConstruct 2] init_state)))) = Some 1 \<and>
   strong_count 1 (snd (projr (WeakArc_upgrade 4
     (projr (run [Construct (Some 7), WeakConstruct 2, WeakConstruct 2] init_state))))) = Some 1"
proof -
  let ?r = "run [Construct (Some 7), WeakConstruct 2, WeakConstruct 2] init_state"
  let ?s = "projr ?r"
  let ?cb = "\<lparr>ref_count = 1, mutex = Unlocked, data = \<lparr>ctrl = Some 0, stored = Some 7\<rparr>\<rparr>"
  have r: "?r = Inr ?s"
    by (simp add: eval_defs)
  have wf: "wf ?s"
    using wf_run [OF wf_init r] .
  have a: "arc_objs ?s 2 = Some (Some 1)" and b: "arc_blocks ?s 1 = Some ?cb"
    by (simp_all add: eval_defs)
  have cp: "WeakArc_copy 4 ?s = Inr (fst (projr (WeakArc_copy 4 ?s)), snd (projr (WeakArc_copy 4 ?s)))"
    and asg: "WeakArc_assign 4 6 ?s = Inr (projr (WeakArc_assign 4 6 ?s))"
    and dt: "WeakArc_dtor 4 ?s = Inr (projr (WeakArc_dtor 4 ?s))"
    and up: "WeakArc_upgrade 4 ?s =
               Inr (fst (projr (WeakArc_upgrade 4 ?s)), snd (projr (WeakArc_upgrade 4 ?s)))"
    by (simp_all add: eval_defs)
  note inst = WeakArc_never_touches_strong_count [OF wf, where arc = 2 and b = 1 and cb = ?cb
      and ?w1.0 = 4 and ?w2.0 = "fst (projr (WeakArc_copy 4 ?s))"
      and ?s1.0 = "snd (projr (WeakArc_copy 4 ?s))"
      and ?w3.0 = 4 and ?w4.0 = 6 and ?s2.0 = "projr (WeakArc_assign 4 6 ?s)"
      and ?w5.0 = 4 and ?s3.0 = "projr (WeakArc_dtor 4 ?s)"
      and ?w6.0 = 4 and h = "fst (projr (WeakArc_upgrade 4 ?s))"
      and ?s4.0 = "snd (projr (WeakArc_upgrade 4 ?s))" and b' = 1 and cb' = ?cb]
  have 0: "strong_count 1 ?s = Some 1"
    using b by (simp add: strong_count_def)
  from inst a b have 1: "\<exists>w wb s'. WeakArc_ctor 2 ?s = Inr (w, s') \<and>
               weak_objs s' w = Some (Some wb) \<and> weak_count wb s' = Some 1 \<and>
               strong_count 1 s' = Some 1"
    by (auto simp add: strong_count_def weak_count_def)
  from inst cp b have 2: "strong_count 1 (snd (projr (WeakArc_copy 4 ?s))) = Some 1"
    by (simp add: strong_count_def)
  from inst asg b have 3: "strong_count 1 (projr (WeakArc_assign 4 6 ?s)) = Some 1"
    by (simp add: strong_count_def)
  from inst dt b have 4: "strong_count 1 (projr (WeakArc_dtor 4 ?s)) = Some 1"
    by (simp add: strong_count_def)
  from inst up b have 5: "strong_count 1 (snd (projr (WeakArc_upgrade 4 ?s))) = Some 1"
    by (simp add: strong_count_def)
  from wf 0 1 2 3 4 5 show ?thesis by blast
qed




end
